theory Spec2Isabelle
  imports Main "HOL-Library.Word"
begin

unbundle bit_operations_syntax

section \<open>The simulation driver of svsim (simulation-driver.cpp)\<close>

text \<open>
  The driver reads commands from a command stream, talks to a compiled simulation through
  generated port accessors and \<open>run_simulation\<close>, and writes messages to a message
  stream. This theory embeds its codec for arbitrary-width values (\<open>sendBits\<close>,
  \<open>scanHexBits\<close>), its command reader with the execution-script recorder, the log tailer
  and the command dispatcher, function by function.

  Conventions of the embedding.
  \<^item> A \<open>uint8_t\<close> is an \<open>8 word\<close>; a buffer is a list of bytes, index 0 first.
  \<^item> A C \<open>int\<close> is an \<open>int\<close>; where an addition can leave the 32-bit range the
    wrap-around is written out with \<open>wrap32\<close>. C division truncates: \<open>c_div\<close>.
  \<^item> \<open>failWithError\<close> writes an \<open>e\<close> message and exits: a function that can reach it
    returns \<open>Inl (Error text)\<close> with the formatted text. A failed \<open>assert\<close> aborts the
    process: \<open>Inl AssertionFailed\<close>.
  \<^item> A C string argument of \<open>%s\<close> ends at its first NUL character: \<open>c_str\<close>.
\<close>

subsection \<open>C integers and \<open>printf\<close> conversions\<close>

type_synonym byte = "8 word"

datatype error = Error string | AssertionFailed

definition wrap32 :: "int \<Rightarrow> int" where
  "wrap32 x = (x + 2147483648) mod 4294967296 - 2147483648"

definition c_div :: "int \<Rightarrow> int \<Rightarrow> int" where
  "c_div a b = sgn a * sgn b * (\<bar>a\<bar> div \<bar>b\<bar>)"

definition hex_digit :: "nat \<Rightarrow> char" where
  "hex_digit d = ''0123456789ABCDEF'' ! (d mod 16)"

fun hex_of_nat :: "nat \<Rightarrow> string" where
  "hex_of_nat n = (if n < 16 then [hex_digit n] else hex_of_nat (n div 16) @ [hex_digit (n mod 16)])"

fun dec_of_nat :: "nat \<Rightarrow> string" where
  "dec_of_nat n =
     (if n < 10 then [''0123456789'' ! n] else dec_of_nat (n div 10) @ [''0123456789'' ! (n mod 10)])"

text \<open>\<open>%d\<close> of an \<open>int\<close>.\<close>

definition fmt_d :: "int \<Rightarrow> string" where
  "fmt_d i = (if i < 0 then CHR ''-'' # dec_of_nat (nat (- i)) else dec_of_nat (nat i))"

text \<open>\<open>%0wX\<close> of a non-negative value: upper-case hexadecimal, zero-padded to at least
  \<open>w\<close> digits.\<close>

definition fmt_0X :: "nat \<Rightarrow> nat \<Rightarrow> string" where
  "fmt_0X w n = replicate (w - length (hex_of_nat n)) CHR ''0'' @ hex_of_nat n"

text \<open>\<open>%08X\<close> takes an \<open>unsigned int\<close>: an \<open>int\<close> argument is read modulo \<open>2^32\<close>.\<close>

definition fmt_08X :: "int \<Rightarrow> string" where
  "fmt_08X i = fmt_0X 8 (nat (i mod 4294967296))"

definition fmt_02X :: "byte \<Rightarrow> string" where
  "fmt_02X b = fmt_0X 2 (unat b)"

definition c_str :: "string \<Rightarrow> string" where
  "c_str s = takeWhile (\<lambda>c. c \<noteq> CHR 0x00) s"

subsection \<open>Encoding a value: \<open>sendBits\<close>\<close>

text \<open>The \<open>switch (bitCount % 8)\<close> of \<open>sendBits\<close>.\<close>

definition signBitMask :: "int \<Rightarrow> byte" where
  "signBitMask bitCount =
     (let r = bitCount mod 8 in
      if r = 1 then 0x01 else if r = 2 then 0x02 else if r = 3 then 0x04
      else if r = 4 then 0x08 else if r = 5 then 0x10 else if r = 6 then 0x20
      else if r = 7 then 0x40 else 0x80)"

text \<open>The loop "Convert to two's complement" of \<open>sendBits\<close>, over the bytes from index 0
  upwards, with the carry as an \<open>int\<close> as in the source.\<close>

fun negateBytes :: "int \<Rightarrow> byte list \<Rightarrow> byte list" where
  "negateBytes carry [] = []"
| "negateBytes carry (b # bs) =
     (let byte = ((NOT (uint b)) AND 0xFF) + carry
      in word_of_int byte # negateBytes (drop_bit 8 byte) bs)"

text \<open>What \<open>sendBits\<close> writes after the bit width: the sign and two digits for every byte,
  most significant byte first. \<open>mutableBytes\<close> holds \<open>byteCount\<close> bytes.\<close>

definition sendBitsValue :: "byte list \<Rightarrow> int \<Rightarrow> bool \<Rightarrow> string" where
  "sendBitsValue mutableBytes bitCount isSigned =
     (let byteCount = c_div (wrap32 (bitCount + 7)) 8;
          top = nat (byteCount - 1) in
      if isSigned then
        (let m = signBitMask bitCount;
             negative = (mutableBytes ! top) AND m \<noteq> 0;
             bytes1 = (if negative then negateBytes 1 (take (nat byteCount) mutableBytes)
                       else mutableBytes);
             bytes2 = bytes1[top := (bytes1 ! top) AND (m - 1)]
         in (if negative then ''-'' else '''')
            @ concat (map fmt_02X (rev (take (nat byteCount) bytes2))))
      else concat (map fmt_02X (rev (take (nat byteCount) mutableBytes))))"

text \<open>The body of the \<open>b\<close> message that \<open>sendBits\<close> sends, or its failure.\<close>

definition sendBits :: "byte list \<Rightarrow> int \<Rightarrow> bool \<Rightarrow> error + string" where
  "sendBits mutableBytes bitCount isSigned =
     (if bitCount \<le> 0 then Inl (Error ''Cannot send 0-bit value.'')
      else if isSigned \<and> bitCount \<le> 1 then Inl (Error ''Cannot send 1-bit signed value.'')
      else Inr (fmt_08X bitCount @ '' '' @ sendBitsValue mutableBytes bitCount isSigned))"

subsection \<open>Decoding a value: \<open>scanHexBits\<close>\<close>

definition scanHexCharacterReverse :: "char \<Rightarrow> string \<Rightarrow> error + int" where
  "scanHexCharacterReverse v description =
     (if of_char v \<ge> (of_char CHR ''0'' :: nat) \<and> of_char v \<le> (of_char CHR ''9'' :: nat)
        then Inr (of_char v - of_char CHR ''0'')
      else if of_char v \<ge> (of_char CHR ''A'' :: nat) \<and> of_char v \<le> (of_char CHR ''F'' :: nat)
        then Inr (of_char v - of_char CHR ''A'' + 10)
      else if of_char v \<ge> (of_char CHR ''a'' :: nat) \<and> of_char v \<le> (of_char CHR ''f'' :: nat)
        then Inr (of_char v - of_char CHR ''a'' + 10)
      else Inl (Error (''Encountered unexpected character '' @ [CHR 0x27, v, CHR 0x27]
                       @ '' when '' @ description @ ''.'')))"

text \<open>The reverse cursor is the list of the characters from the cursor down to the first
  character of the value: \<open>c\<close> is the character under the cursor and \<open>rs\<close> the ones before
  it. The cursor is below the first character when nothing is left.\<close>

fun scanHexByteReverse :: "char \<Rightarrow> string \<Rightarrow> string \<Rightarrow> error + (int \<times> string)" where
  "scanHexByteReverse c [] description =
     (case scanHexCharacterReverse c description of
        Inl e \<Rightarrow> Inl e
      | Inr low \<Rightarrow> Inr (low, []))"
| "scanHexByteReverse c (c' # rs) description =
     (case scanHexCharacterReverse c description of
        Inl e \<Rightarrow> Inl e
      | Inr low \<Rightarrow>
          (case scanHexCharacterReverse c' description of
             Inl e \<Rightarrow> Inl e
           | Inr high \<Rightarrow> Inr ((push_bit 4 high) OR low, rs)))"

text \<open>The \<open>while (scannedByteCount < valueByteCount)\<close> loop; \<open>k\<close> is
  \<open>valueByteCount - scannedByteCount\<close>. It returns the bytes stored, the carry and the
  characters left at and below the cursor.\<close>

fun scanLoop :: "bool \<Rightarrow> nat \<Rightarrow> int \<Rightarrow> char \<Rightarrow> string \<Rightarrow> string
    \<Rightarrow> error + (byte list \<times> int \<times> string)" where
  "scanLoop isNegative 0 carry c rs description = Inr ([], carry, c # rs)"
| "scanLoop isNegative (Suc k) carry c rs description =
     (case scanHexByteReverse c rs description of
        Inl e \<Rightarrow> Inl e
      | Inr (scannedByte, rs') \<Rightarrow>
          (let scannedByte' = (if isNegative then ((NOT scannedByte) AND 0xFF) + carry
                               else scannedByte);
               carry' = (if isNegative then drop_bit 8 scannedByte' else carry)
           in if isNegative \<and> carry' AND (NOT 1) \<noteq> 0
              then Inl (Error (''Unexpected error in carry computation for ''
                               @ ''negative value when '' @ description))
              else (case rs' of
                      [] \<Rightarrow> Inr ([word_of_int scannedByte'], carry', [])
                    | c' # rs'' \<Rightarrow>
                        (case scanLoop isNegative k carry' c' rs'' description of
                           Inl e \<Rightarrow> Inl e
                         | Inr (bytes, cy, left) \<Rightarrow>
                             Inr (word_of_int scannedByte' # bytes, cy, left)))))"

text \<open>The \<open>switch (valueBitCount % 8)\<close> of \<open>scanHexBits\<close>.\<close>

definition highOrderByteMask :: "int \<Rightarrow> byte" where
  "highOrderByteMask valueBitCount =
     (let r = valueBitCount mod 8 in
      if r = 1 then 0xFE else if r = 2 then 0xFC else if r = 3 then 0xF8
      else if r = 4 then 0xF0 else if r = 5 then 0xE0 else if r = 6 then 0xC0
      else if r = 7 then 0x80 else 0x00)"

text \<open>\<open>scanHexBits\<close> on the characters from \<open>*scanCursor\<close> up to \<open>scanEnd\<close>. On success the
  cursor is moved to \<open>scanEnd\<close> and the buffer of \<open>byteCount\<close> bytes is returned.
  \<open>calloc\<close> of a negative count fails, and the \<open>assert\<close> after it aborts.\<close>

definition scanHexBits :: "string \<Rightarrow> int \<Rightarrow> string \<Rightarrow> error + byte list" where
  "scanHexBits text bitCount description =
     (if text = [] then Inl (Error (''Scanned value is empty when '' @ description @ ''.''))
      else if bitCount \<le> 0
        then Inl (Error (''Cannot scan 0-bit-wide value when '' @ description @ ''.''))
      else if hd text = CHR ''-'' \<and> tl text = []
        then Inl (Error (''Unexpected end of negative value when '' @ description @ ''.''))
      else if hd text = CHR ''-'' \<and> bitCount \<le> 1
        then Inl (Error (''Cannot scan 1-bit-wide negative value when '' @ description @ ''.''))
      else
        (let isNegative = (hd text = CHR ''-'');
             valueBitCount = (if isNegative then bitCount - 1 else bitCount);
             digits = (if isNegative then tl text else text);
             byteCount = c_div (wrap32 (bitCount + 7)) 8;
             valueByteCount = c_div (wrap32 (valueBitCount + 7)) 8
         in if byteCount < 0 then Inl AssertionFailed
            else
              (case scanLoop isNegative (nat valueByteCount) 1 (last digits)
                      (tl (rev digits)) description of
                 Inl e \<Rightarrow> Inl e
               | Inr (scanned, carry, left) \<Rightarrow>
                   if length left > 1
                   then Inl (Error (''Scanned value exceeded '' @ fmt_d byteCount
                                    @ '' bytes when '' @ description @ ''.''))
                   else
                     (let m = highOrderByteMask valueBitCount;
                          n = nat byteCount
                      in if isNegative then
                           (if carry \<noteq> 0
                            then Inl (Error (''Scanned negative value exceeded ''
                                   @ fmt_d byteCount @ '' bytes when '' @ description @ ''.''))
                            else
                              (let bytes = scanned @ replicate (n - length scanned) 0xFF
                               in if (bytes ! (n - 1)) AND m \<noteq> m
                                  then Inl (Error (''Scanned negative value exceeded ''
                                         @ fmt_d bitCount @ '' bits when '' @ description
                                         @ ''.''))
                                  else Inr bytes))
                         else
                           (let bytes = scanned @ replicate (n - length scanned) 0x00
                            in if (bytes ! (n - 1)) AND m \<noteq> 0
                               then Inl (Error (''Scanned value exceeded '' @ fmt_d bitCount
                                      @ '' bits when '' @ description @ ''.''))
                               else Inr bytes)))))"

subsection \<open>The simulation and the state of the driver\<close>

text \<open>
  The compiled simulation is outside the driver. What the driver can observe of it is
  determined by the calls made so far, so the model keeps the history of the calls and
  takes the simulation as a record of functions of that history:
  \<^item> \<open>port_getter\<close> and \<open>port_setter\<close> give the bit width of a port, \<open>None\<close> when
    the generated lookup returns non-zero;
  \<^item> \<open>port_value\<close> gives the bytes that the getter of a port stores into the buffer;
  \<^item> \<open>simulation_log\<close> gives the content of the log file once \<open>stdout\<close> is flushed;
  \<^item> \<open>beyond_sentinelPortValue\<close> and \<open>beyond_sentinelValue\<close> give the memory that
    follows the two sentinel buffers of a TICK command, which \<open>memcmp\<close> reads when its
    length exceeds the buffers;
  \<^item> \<open>simulationTraceFilepath\<close> and \<open>feof_stdin\<close> are what \<open>main\<close> and the C
    library provide.
\<close>

datatype call =
    Run int
  | SetPort int "byte list"
  | GetPort int
  | InitializeTrace string
  | EnableTrace
  | DisableTrace

record engine =
  port_getter :: "int \<Rightarrow> int option"
  port_setter :: "int \<Rightarrow> int option"
  port_value :: "call list \<Rightarrow> int \<Rightarrow> byte list"
  simulation_log :: "call list \<Rightarrow> string"
  beyond_sentinelPortValue :: "nat \<Rightarrow> byte"
  beyond_sentinelValue :: "nat \<Rightarrow> byte"
  simulationTraceFilepath :: string
  feof_stdin :: bool

text \<open>The execution script is the list of the records written to it; \<open>render_entry\<close>
  gives the text of each.\<close>

datatype script_entry =
    CommandEntry int string
  | LimitNote int
  | ImplicitDone int
  | MessageEntry int char string

definition render_entry :: "script_entry \<Rightarrow> string" where
  "render_entry e =
     (case e of
        CommandEntry n line \<Rightarrow> fmt_d n @ ''> '' @ c_str line
      | LimitNote l \<Rightarrow> ''# Execution script limited to '' @ fmt_d l
          @ '' commands (not counting implicit '' @ [CHR 0x27] @ ''Done'' @ [CHR 0x27]
          @ '').'' @ [CHR 0x0A]
      | ImplicitDone n \<Rightarrow> fmt_d n @ ''> D'' @ [CHR 0x0A]
      | MessageEntry n code body \<Rightarrow> fmt_d n @ ''< '' @ [code] @ '' '' @ body @ [CHR 0x0A])"

text \<open>The global and static variables of the driver. \<open>messageStream\<close> is the list of the
  messages written and flushed so far; \<open>executionScript\<close> is \<open>None\<close> for \<open>NULL\<close>;
  \<open>log_offset\<close> is \<open>None\<close> while the static \<open>log\<close> of \<open>sendLog\<close> is \<open>NULL\<close> and the
  position in the log file afterwards; \<open>calls\<close> is the history of the calls into the
  simulation.\<close>

record driver =
  commandStream :: string
  messageStream :: "string list"
  executionScript :: "script_entry list option"
  executionScriptMessageCount :: int
  executionScriptCommandCount :: int
  executionScriptLimit :: int
  stringBuffer :: string
  log_offset :: "int option"
  receivedDone :: bool
  traceInitialized :: bool
  calls :: "call list"

datatype outcome = Continue driver | Failed driver | Aborted driver

subsection \<open>Sending messages\<close>

definition shouldLogMessageToExecutionScript :: "driver \<Rightarrow> bool" where
  "shouldLogMessageToExecutionScript s =
     (executionScript s \<noteq> None \<and>
      (executionScriptLimit s = -1 \<or> executionScriptMessageCount s < executionScriptLimit s))"

text \<open>\<open>writeMessageStart\<close>, the \<open>writeMessageBody\<close> calls and \<open>writeMessageEnd\<close> of one
  message, with the body already formatted.\<close>

definition writeMessage :: "char \<Rightarrow> string \<Rightarrow> driver \<Rightarrow> driver" where
  "writeMessage messageCode body s =
     s\<lparr>messageStream := messageStream s @ [[messageCode] @ '' '' @ body @ [CHR 0x0A]],
       executionScript :=
         (if shouldLogMessageToExecutionScript s
          then map_option (\<lambda>es. es @ [MessageEntry (executionScriptMessageCount s)
                                         messageCode body]) (executionScript s)
          else executionScript s),
       executionScriptMessageCount := wrap32 (executionScriptMessageCount s + 1)\<rparr>"

definition failWithError :: "string \<Rightarrow> driver \<Rightarrow> outcome" where
  "failWithError text s = Failed (writeMessage CHR ''e'' text s)"

definition raise :: "error \<Rightarrow> driver \<Rightarrow> outcome" where
  "raise e s = (case e of Error text \<Rightarrow> failWithError text s | AssertionFailed \<Rightarrow> Aborted s)"


definition sendAck :: "driver \<Rightarrow> driver" where
  "sendAck s = writeMessage CHR ''k'' ''ack'' s"

text \<open>\<open>sendUintAsBits\<close> passes the address of a \<open>uint64_t\<close>: its eight bytes, least
  significant first on the little-endian hosts the driver runs on.\<close>

definition uint64_bytes :: "64 word \<Rightarrow> byte list" where
  "uint64_bytes v = map (\<lambda>i. ucast (drop_bit (8 * i) v)) [0..<8]"

definition sendUintAsBits :: "64 word \<Rightarrow> error + string" where
  "sendUintAsBits v = sendBits (uint64_bytes v) 64 False"

text \<open>\<open>sendLog\<close>. The log file was created by \<open>main\<close>, which also set \<open>logFilePath\<close>;
  opening it and moving in it are taken to succeed. \<open>UINT32_MAX\<close> is 4294967295; the data
  is written with \<open>%s\<close>.\<close>

definition sendLog :: "engine \<Rightarrow> driver \<Rightarrow> outcome" where
  "sendLog env s =
     (let logFile = simulation_log env (calls s);
          currentOffset = (case log_offset s of None \<Rightarrow> 0 | Some p \<Rightarrow> p);
          endOffset = int (length logFile)
      in if endOffset < currentOffset then failWithError ''Failed to gather log (299).'' s
         else
           (let readByteCount = endOffset - currentOffset in
            if readByteCount > 4294967295
            then failWithError ''Log is too long to be encoded as a single `LOG` message.'' s
            else
              (let data = take (nat readByteCount) (drop (nat currentOffset) logFile)
               in Continue (writeMessage CHR ''l''
                              (fmt_0X 8 (nat readByteCount) @ '' '' @ c_str data)
                              (s\<lparr>log_offset := Some endOffset\<rparr>)))))"

subsection \<open>Reading commands\<close>

text \<open>\<open>getline\<close> on the command stream: the characters up to and including the first
  newline, or all of them when there is none.\<close>

fun getline :: "string \<Rightarrow> string \<times> string" where
  "getline [] = ([], [])"
| "getline (c # cs) =
     (if c = CHR 0x0A then ([c], cs) else (let (l, r) = getline cs in (c # l, r)))"

text \<open>The part of \<open>readCommand\<close> that writes to the execution script.\<close>

definition recordCommand :: "driver \<Rightarrow> driver" where
  "recordCommand s =
     (case executionScript s of
        None \<Rightarrow> s
      | Some es \<Rightarrow>
          (let recorded = (executionScriptLimit s = -1
                           \<or> executionScriptCommandCount s \<le> executionScriptLimit s);
               es1 = (if recorded
                      then es @ [CommandEntry (executionScriptCommandCount s) (stringBuffer s)]
                      else es);
               count1 = (if recorded then wrap32 (executionScriptCommandCount s + 1)
                         else executionScriptCommandCount s);
               es2 = (if count1 = wrap32 (executionScriptLimit s + 1)
                      then es1 @ [LimitNote (executionScriptLimit s), ImplicitDone count1]
                      else es1)
           in s\<lparr>executionScript := Some es2, executionScriptCommandCount := count1\<rparr>))"

text \<open>\<open>readCommand\<close> returns the line read, which ends in a newline, and the new state;
  at the end of the input the string buffer keeps what it held.\<close>

definition readCommand :: "engine \<Rightarrow> driver \<Rightarrow> outcome + (string \<times> driver)" where
  "readCommand env s =
     (let (line, rest) = getline (commandStream s);
          s1 = s\<lparr>commandStream := rest,
                 stringBuffer := (if line = [] then stringBuffer s else line)\<rparr>;
          s2 = recordCommand s1
      in if line = []
         then (if feof_stdin env then Inl (failWithError ''Unexpected end of input.'' s2)
               else Inl (failWithError ''Could not read next command.'' s2))
         else if last line = CHR 0x0A then Inr (line, s2)
         else Inl (failWithError (''Read partial line '' @ c_str line) s2))"

text \<open>\<open>strtol\<close> with base 16, as the C standard describes it, for a 64-bit \<open>long\<close>: white
  space is skipped, then an optional sign and an optional \<open>0x\<close> before a digit; the
  result is clamped.\<close>

definition isspace :: "char \<Rightarrow> bool" where
  "isspace c = (c = CHR '' '' \<or> (of_char c \<ge> (9::nat) \<and> of_char c \<le> (13::nat)))"

definition hex_value :: "char \<Rightarrow> nat option" where
  "hex_value c =
     (let n = (of_char c :: nat) in
      if 48 \<le> n \<and> n \<le> 57 then Some (n - 48)
      else if 65 \<le> n \<and> n \<le> 70 then Some (n - 55)
      else if 97 \<le> n \<and> n \<le> 102 then Some (n - 87)
      else None)"

definition is_hex :: "char \<Rightarrow> bool" where
  "is_hex c = (hex_value c \<noteq> None)"

definition strtol16 :: "string \<Rightarrow> (int \<times> string) option" where
  "strtol16 str =
     (let s1 = dropWhile isspace str;
          negative = (s1 \<noteq> [] \<and> hd s1 = CHR ''-'');
          s2 = (if s1 \<noteq> [] \<and> (hd s1 = CHR ''-'' \<or> hd s1 = CHR ''+'') then tl s1 else s1);
          s3 = (case s2 of
                  z # x # d # r \<Rightarrow>
                    if z = CHR ''0'' \<and> (x = CHR ''x'' \<or> x = CHR ''X'') \<and> is_hex d
                    then d # r else s2
                | _ \<Rightarrow> s2);
          ds = takeWhile is_hex s3;
          magnitude = foldl (\<lambda>a c. 16 * a + int (the (hex_value c))) 0 ds;
          v = (if negative then - magnitude else magnitude)
      in if ds = [] then None
         else Some (if v > 9223372036854775807 then 9223372036854775807
                    else if v < - 9223372036854775808 then - 9223372036854775808
                    else v,
                    dropWhile is_hex s3))"

definition scanInt :: "string \<Rightarrow> string \<Rightarrow> error + (int \<times> string)" where
  "scanInt lineCursor description =
     (case strtol16 lineCursor of
        None \<Rightarrow> Inl (Error (''Could not scan integer while '' @ description @ ''.''))
      | Some (v, scanEnd) \<Rightarrow>
          if v < - 2147483648 \<or> v > 2147483647
          then Inl (Error (''Scanned out-of-bounds integer while '' @ description @ ''.''))
          else Inr (v, scanEnd))"

text \<open>\<open>findNext\<close> stops at the character or at the terminating NUL: the characters
  before that place, and the cursor there.\<close>

definition findNext :: "string \<Rightarrow> char \<Rightarrow> string \<times> string" where
  "findNext str ch =
     (takeWhile (\<lambda>c. c \<noteq> CHR 0x00 \<and> c \<noteq> ch) str, dropWhile (\<lambda>c. c \<noteq> CHR 0x00 \<and> c \<noteq> ch) str)"

text \<open>\<open>*(lineCursor++)\<close>: the character under the cursor, NUL after the last one.\<close>

definition nextChar :: "string \<Rightarrow> char \<times> string" where
  "nextChar cur = (case cur of [] \<Rightarrow> (CHR 0x00, []) | c # r \<Rightarrow> (c, r))"

definition peekChar :: "string \<Rightarrow> char" where
  "peekChar cur = fst (nextChar cur)"

subsection \<open>Ports\<close>

definition resolveSettablePort :: "engine \<Rightarrow> int \<Rightarrow> string \<Rightarrow> error + int" where
  "resolveSettablePort env ident description =
     (case port_setter env ident of
        None \<Rightarrow> Inl (Error (''Invalid port ID '' @ [CHR 0x27] @ fmt_d ident @ [CHR 0x27] @ ''.''))
      | Some bitWidth \<Rightarrow>
          if bitWidth \<le> 0
          then Inl (Error (''Encountered port with invalid bit width when '' @ description
                           @ ''.''))
          else Inr bitWidth)"

definition resolveGettablePort :: "engine \<Rightarrow> int \<Rightarrow> string \<Rightarrow> error + int" where
  "resolveGettablePort env ident description =
     (case port_getter env ident of
        None \<Rightarrow> Inl (Error (''Invalid port ID '' @ [CHR 0x27] @ fmt_d ident @ [CHR 0x27] @ ''.''))
      | Some bitWidth \<Rightarrow>
          if bitWidth \<le> 0
          then Inl (Error (''Encountered port with invalid bit width when '' @ description
                           @ ''.''))
          else Inr bitWidth)"

text \<open>A getter writes the value of its port at the start of the buffer it is given.\<close>

definition callGetter :: "engine \<Rightarrow> int \<Rightarrow> byte list \<Rightarrow> call list \<Rightarrow> byte list \<times> call list" where
  "callGetter env ident buffer cs =
     (let cs' = cs @ [GetPort ident];
          v = take (length buffer) (port_value env cs ident)
      in (v @ drop (length v) buffer, cs'))"

subsection \<open>Processing commands\<close>

definition processSetBits :: "engine \<Rightarrow> string \<Rightarrow> driver \<Rightarrow> outcome" where
  "processSetBits env lineCursor s =
     (case scanInt lineCursor ''parsing port ID for SET_BITS command'' of
        Inl e \<Rightarrow> raise e s
      | Inr (ident, cur1) \<Rightarrow>
          (case resolveSettablePort env ident ''resolving port for SET_BITS command'' of
             Inl e \<Rightarrow> raise e s
           | Inr bitWidth \<Rightarrow>
               (let (c, valueStart) = nextChar cur1 in
                if c \<noteq> CHR '' ''
                then failWithError ''Expected space after port ID for SET_BITS command.'' s
                else
                  (case scanHexBits (butlast valueStart) bitWidth
                          ''parsing value for SET_BITS command'' of
                     Inl e \<Rightarrow> raise e s
                   | Inr data \<Rightarrow>
                       Continue (sendAck (s\<lparr>calls := calls s @ [SetPort ident data]\<rparr>))))))"

definition processGetBits :: "engine \<Rightarrow> string \<Rightarrow> driver \<Rightarrow> outcome" where
  "processGetBits env lineCursor s =
     (let (c1, cur1) = nextChar lineCursor in
      if c1 \<noteq> CHR '' '' then failWithError ''Expected space after `GET_BITS` command.'' s
      else
        (let (foo, cur2) = nextChar cur1 in
         if foo \<noteq> CHR ''s'' \<and> foo \<noteq> CHR ''u''
         then failWithError (''Expected `s` or `u` argument to `GET_BITS` command (''
                             @ [foo] @ '').'') s
         else
           (let isSigned = (foo = CHR ''s'');
                (c3, cur3) = nextChar cur2 in
            if c3 \<noteq> CHR '' ''
            then failWithError
                   ''Expected space after `s` or `u` argument to `GET_BITS` command.'' s
            else
              (case scanInt cur3 ''parsing port ID for GET_BITS command'' of
                 Inl e \<Rightarrow> raise e s
               | Inr (ident, cur4) \<Rightarrow>
                   if peekChar cur4 \<noteq> CHR 0x0A
                   then failWithError ''Unexpected data at end of GET_BITS command'' s
                   else
                     (case resolveGettablePort env ident
                             ''resolving port for GET_BITS command'' of
                        Inl e \<Rightarrow> raise e s
                      | Inr bitWidth \<Rightarrow>
                          (let byteCount = c_div (wrap32 (bitWidth + 7)) 8 in
                           if byteCount < 0 then Aborted s
                           else
                             (let (bytes, cs) = callGetter env ident
                                    (replicate (nat byteCount) 0) (calls s);
                                  s1 = s\<lparr>calls := cs\<rparr>
                              in (case sendBits bytes bitWidth isSigned of
                                    Inl e \<Rightarrow> raise e s1
                                  | Inr body \<Rightarrow> Continue (writeMessage CHR ''b'' body s1)))))))))"

definition processRun :: "engine \<Rightarrow> string \<Rightarrow> driver \<Rightarrow> outcome" where
  "processRun env lineCursor s =
     (case scanInt lineCursor ''parsing time for RUN command'' of
        Inl e \<Rightarrow> raise e s
      | Inr (time, cur1) \<Rightarrow>
          if peekChar cur1 \<noteq> CHR 0x0A
          then failWithError ''Unexpected data at end of RUN command.'' s
          else Continue (sendAck (s\<lparr>calls := calls s @ [Run time]\<rparr>)))"

text \<open>The arguments of a TICK command once parsed; \<open>sentinel\<close> holds the sentinel port's
  ID and bit width and the expected value, and is \<open>None\<close> when
  \<open>sentinelPort.getter\<close> stays \<open>NULL\<close>.\<close>

record tick =
  tickingPortID :: int
  inPhaseValue :: "byte list"
  outOfPhaseValue :: "byte list"
  timestepsPerPhase :: int
  maxCycleCount :: int
  sentinel :: "(int \<times> int \<times> byte list) option"

text \<open>\<open>memcmp(p, q, n) == 0\<close>, where \<open>p\<close> and \<open>q\<close> are read as memory: the buffer, and
  after its last byte whatever follows it.\<close>

definition memory_at :: "byte list \<Rightarrow> (nat \<Rightarrow> byte) \<Rightarrow> nat \<Rightarrow> byte" where
  "memory_at buffer beyond i =
     (if i < length buffer then buffer ! i else beyond (i - length buffer))"

definition memcmp_equal :: "(nat \<Rightarrow> byte) \<Rightarrow> (nat \<Rightarrow> byte) \<Rightarrow> nat \<Rightarrow> bool" where
  "memcmp_equal p q n = list_all (\<lambda>i. p i = q i) [0..<n]"

text \<open>The \<open>while (cycles++ < maxCycleCount)\<close> loop, with \<open>cycles\<close> a 32-bit \<open>int\<close>. It
  returns \<open>cycles\<close> as the loop leaves it and the history of the calls.\<close>

function tickLoop :: "engine \<Rightarrow> tick \<Rightarrow> 32 word \<Rightarrow> 32 word \<Rightarrow> byte list \<Rightarrow> call list
    \<Rightarrow> 32 word \<times> call list" where
  "tickLoop env t maxCycles cycles sentinelPortValue cs =
     (if sint cycles < sint maxCycles then
        (let drive = [SetPort (tickingPortID t) (inPhaseValue t), Run (timestepsPerPhase t),
                      SetPort (tickingPortID t) (outOfPhaseValue t), Run (timestepsPerPhase t)]
         in case sentinel t of
              None \<Rightarrow> tickLoop env t maxCycles (cycles + 1) sentinelPortValue (cs @ drive)
            | Some (sentinelPortID, bitWidth, sentinelValue) \<Rightarrow>
                (let (buffer, cs1) = callGetter env sentinelPortID sentinelPortValue cs in
                 if memcmp_equal (memory_at buffer (beyond_sentinelPortValue env))
                      (memory_at sentinelValue (beyond_sentinelValue env)) (nat bitWidth)
                 then (cycles + 1, cs1)
                 else tickLoop env t maxCycles (cycles + 1) buffer (cs1 @ drive)))
      else (cycles + 1, cs))"
  by pat_completeness auto

termination tickLoop
proof -
  have succ: "sint (c + 1) = sint c + 1" if "sint c < sint m" for c m :: "32 word"
  proof -
    have lo: "- (2 ^ 31) \<le> sint c" using sint_ge [of c] by simp
    have hi: "sint m < 2 ^ 31" using sint_lt [of m] by simp
    have "sint (c + 1) = signed_take_bit 31 (sint c + 1)"
      by (simp add: sint_word_ariths)
    also have "\<dots> = sint c + 1"
      by (rule signed_take_bit_int_eq_self) (use lo hi that in simp_all)
    finally show ?thesis .
  qed
  show ?thesis
    by (relation "measure (\<lambda>(env, t, m, c, b, cs). nat (sint m - sint c))")
       (simp_all add: succ)
qed

text \<open>The parsing of a TICK command, in three parts: the ticking port and its two values,
  the two counts, and the optional sentinel. None of them calls into the simulation or
  writes a message; each returns the cursor it reached.\<close>

definition scanTickValues :: "engine \<Rightarrow> string \<Rightarrow> error + (int \<times> byte list \<times> byte list \<times> string)"
  where
  "scanTickValues env lineCursor =
     (case scanInt lineCursor ''parsing ticking port ID for TICK command'' of
        Inl e \<Rightarrow> Inl e
      | Inr (ident, cur1) \<Rightarrow>
          (case resolveSettablePort env ident ''resolving ticking port for TICK command'' of
             Inl e \<Rightarrow> Inl e
           | Inr bitWidth \<Rightarrow>
               (let (c1, cur2) = nextChar cur1 in
                if c1 \<noteq> CHR '' ''
                then Inl (Error ''Expected space after ticking port ID for TICK command.'')
                else
                  (let (text1, end1) = findNext cur2 CHR '','' in
                   case scanHexBits text1 bitWidth ''parsing in-phase value for TICK command'' of
                     Inl e \<Rightarrow> Inl e
                   | Inr inPhase \<Rightarrow>
                       (let (c2, cur3) = nextChar end1 in
                        if c2 \<noteq> CHR '',''
                        then Inl (Error ''Expected comma after in-phase value for TICK command.'')
                        else
                          (let (text2, end2) = findNext cur3 CHR ''-'' in
                           case scanHexBits text2 bitWidth
                                  ''parsing out-of-phase value for TICK command'' of
                             Inl e \<Rightarrow> Inl e
                           | Inr outOfPhase \<Rightarrow>
                               (let (c3, cur4) = nextChar end2 in
                                if c3 \<noteq> CHR ''-''
                                then Inl (Error
                                  ''Expected dash after out-of-phase value for TICK command.'')
                                else Inr (ident, inPhase, outOfPhase, cur4))))))))"

definition scanTickCounts :: "string \<Rightarrow> error + (int \<times> int \<times> string)" where
  "scanTickCounts lineCursor =
     (case scanInt lineCursor ''parsing timesteps-per-phase for TICK command'' of
        Inl e \<Rightarrow> Inl e
      | Inr (timesteps, cur1) \<Rightarrow>
          (let (c, cur2) = nextChar cur1 in
           if c \<noteq> CHR ''*''
           then Inl (Error ''Expected asterisk after timesteps-per-phase for TICK command.'')
           else
             (case scanInt cur2 ''parsing max cycle count for TICK command.'' of
                Inl e \<Rightarrow> Inl e
              | Inr (maxCycles, cur3) \<Rightarrow>
                  if maxCycles \<le> 0
                  then Inl (Error ''Max cycle count for TICK command should be greater than 0.'')
                  else Inr (timesteps, maxCycles, cur3))))"

definition scanTickSentinel :: "engine \<Rightarrow> string
    \<Rightarrow> error + ((int \<times> int \<times> byte list) option \<times> string)" where
  "scanTickSentinel env lineCursor =
     (if peekChar lineCursor = CHR '' '' then
        (case scanInt (tl lineCursor) ''parsing sentinel port ID for TICK command'' of
           Inl e \<Rightarrow> Inl e
         | Inr (ident, cur1) \<Rightarrow>
             (case resolveGettablePort env ident ''resolving sentinel port for TICK command'' of
                Inl e \<Rightarrow> Inl e
              | Inr bitWidth \<Rightarrow>
                  (let (c, cur2) = nextChar cur1 in
                   if c \<noteq> CHR ''=''
                   then Inl (Error
                     ''Expected equals sign after sentinel port ID for TICK command.'')
                   else
                     (case scanHexBits (butlast cur2) bitWidth
                             ''parsing sentinel value for TICK command'' of
                        Inl e \<Rightarrow> Inl e
                      | Inr sentinelValue \<Rightarrow>
                          Inr (Some (ident, bitWidth, sentinelValue),
                               drop (length cur2 - 1) cur2)))))
      else Inr (None, lineCursor))"

definition scanTick :: "engine \<Rightarrow> string \<Rightarrow> error + tick" where
  "scanTick env lineCursor =
     (case scanTickValues env lineCursor of
        Inl e \<Rightarrow> Inl e
      | Inr (ident, inPhase, outOfPhase, cur1) \<Rightarrow>
          (case scanTickCounts cur1 of
             Inl e \<Rightarrow> Inl e
           | Inr (timesteps, maxCycles, cur2) \<Rightarrow>
               (case scanTickSentinel env cur2 of
                  Inl e \<Rightarrow> Inl e
                | Inr (sent, cur3) \<Rightarrow>
                    if peekChar cur3 \<noteq> CHR 0x0A
                    then Inl (Error (''Unexpected data at end of TICK command: '' @ c_str cur3
                                     @ ''.''))
                    else Inr \<lparr>tickingPortID = ident, inPhaseValue = inPhase,
                              outOfPhaseValue = outOfPhase, timestepsPerPhase = timesteps,
                              maxCycleCount = maxCycles, sentinel = sent\<rparr>)))"

text \<open>The TICK case: after the parsing, the buffer for the sentinel port is allocated
  zeroed, the loop runs, \<open>cycles--\<close> takes back the last increment and the count is sent
  as a \<open>uint64_t\<close>.\<close>

definition processTick :: "engine \<Rightarrow> string \<Rightarrow> driver \<Rightarrow> outcome" where
  "processTick env lineCursor s =
     (case scanTick env lineCursor of
        Inl e \<Rightarrow> raise e s
      | Inr t \<Rightarrow>
          (let sentinelPortValue =
                 (case sentinel t of
                    None \<Rightarrow> []
                  | Some (ident, bitWidth, v) \<Rightarrow>
                      replicate (nat (c_div (wrap32 (bitWidth + 7)) 8)) 0);
               (cycles, cs) = tickLoop env t (word_of_int (maxCycleCount t)) 0
                                sentinelPortValue (calls s);
               s1 = s\<lparr>calls := cs\<rparr>
           in case sendUintAsBits (word_of_int (sint (cycles - 1))) of
                Inl e \<Rightarrow> raise e s1
              | Inr body \<Rightarrow> Continue (writeMessage CHR ''b'' body s1)))"

definition processTrace :: "engine \<Rightarrow> string \<Rightarrow> driver \<Rightarrow> outcome" where
  "processTrace env lineCursor s =
     (let (c, cur1) = nextChar lineCursor in
      if c \<noteq> CHR '' ''
      then failWithError ''Expected space after ticking port ID for TICK command.'' s
      else
        (let (argument, cur2) = nextChar cur1 in
         if peekChar cur2 \<noteq> CHR 0x0A
         then failWithError ''Unexpected data at end of TRACE command.'' s
         else
           (let s1 =
                  (if argument = CHR ''1'' then
                     (let s0 = (if \<not> traceInitialized s
                                then s\<lparr>traceInitialized := True,
                                       calls := calls s
                                         @ [InitializeTrace (simulationTraceFilepath env)]\<rparr>
                                else s)
                      in s0\<lparr>calls := calls s0 @ [EnableTrace]\<rparr>)
                   else if argument = CHR ''0'' then s\<lparr>calls := calls s @ [DisableTrace]\<rparr>
                   else s)
            in Continue (sendAck s1))))"

text \<open>\<open>%d\<close> of the command code, a \<open>char\<close> (signed on the hosts of the driver).\<close>

definition char_to_int :: "char \<Rightarrow> int" where
  "char_to_int c = (let n = (of_char c :: int) in if n \<ge> 128 then n - 256 else n)"

definition processCommand :: "engine \<Rightarrow> driver \<Rightarrow> outcome" where
  "processCommand env s =
     (case readCommand env s of
        Inl failed \<Rightarrow> failed
      | Inr (line, s1) \<Rightarrow>
          (let (commandCode, lineCursor) = nextChar line in
           if commandCode = CHR ''D'' then Continue (s1\<lparr>receivedDone := True\<rparr>)
           else if commandCode = CHR ''L'' then sendLog env s1
           else if commandCode = CHR ''S'' then processSetBits env lineCursor s1
           else if commandCode = CHR ''G'' then processGetBits env lineCursor s1
           else if commandCode = CHR ''R'' then processRun env lineCursor s1
           else if commandCode = CHR ''T'' then processTick env lineCursor s1
           else if commandCode = CHR ''W'' then processTrace env lineCursor s1
           else failWithError (''Unknown opcode '' @ [CHR 0x27] @ fmt_d (char_to_int commandCode)
                               @ [CHR 0x27] @ ''.'') s1))"



text \<open>The driver as \<open>main\<close> leaves it before \<open>simulation_main\<close>: the counters at their
  initial values, the execution script open and empty or absent, nothing read or
  written.\<close>

definition initialDriver :: "string \<Rightarrow> bool \<Rightarrow> int \<Rightarrow> driver" where
  "initialDriver input scriptEnabled limit =
     \<lparr>commandStream = input, messageStream = [],
      executionScript = (if scriptEnabled then Some [] else None),
      executionScriptMessageCount = 0, executionScriptCommandCount = 1,
      executionScriptLimit = limit, stringBuffer = [], log_offset = None,
      receivedDone = False, traceInitialized = False, calls = []\<rparr>"

definition state_of :: "outcome \<Rightarrow> driver" where
  "state_of out = (case out of Continue s \<Rightarrow> s | Failed s \<Rightarrow> s | Aborted s \<Rightarrow> s)"

subsection \<open>Notions used to state the properties\<close>

text \<open>The buffer of \<open>n\<close> bytes that holds the number \<open>x\<close>, least significant byte first,
  and the buffer of a port of \<open>W\<close> bits that holds the integer \<open>v\<close> in two's complement:
  \<open>(W + 7) div 8\<close> bytes, the sign extended up to the last byte.\<close>

fun bytesOfNat :: "nat \<Rightarrow> nat \<Rightarrow> byte list" where
  "bytesOfNat 0 x = []"
| "bytesOfNat (Suc n) x = of_nat (x mod 256) # bytesOfNat n (x div 256)"

definition valueBuffer :: "int \<Rightarrow> int \<Rightarrow> byte list" where
  "valueBuffer W v =
     (let n = nat ((W + 7) div 8) in bytesOfNat n (nat (v mod 256 ^ n)))"

text \<open>The number that a buffer holds, read without sign.\<close>

fun valueOfBytes :: "byte list \<Rightarrow> nat" where
  "valueOfBytes [] = 0"
| "valueOfBytes (b # bs) = unat b + 256 * valueOfBytes bs"

text \<open>The carry that the negation loop leaves after the last byte.\<close>

fun negateCarry :: "int \<Rightarrow> byte list \<Rightarrow> int" where
  "negateCarry carry [] = carry"
| "negateCarry carry (b # bs) = negateCarry (drop_bit 8 (((NOT (uint b)) AND 0xFF) + carry)) bs"

text \<open>The integers that the codec is specified for: \<open>0 \<le> v < 2^W\<close> unsigned,
  \<open>- 2^(W-1) \<le> v < 2^(W-1)\<close> signed.\<close>

definition inRange :: "int \<Rightarrow> bool \<Rightarrow> int \<Rightarrow> bool" where
  "inRange W isSigned v =
     (if isSigned then 2 \<le> W \<and> - (2 ^ nat (W - 1)) \<le> v \<and> v < 2 ^ nat (W - 1)
      else 1 \<le> W \<and> 0 \<le> v \<and> v < 2 ^ nat W)"

text \<open>A framed message: a code, a space, a body, a newline at the end.\<close>

definition framed :: "string \<Rightarrow> bool" where
  "framed m = (3 \<le> length m \<and> m ! 1 = CHR '' '' \<and> last m = CHR 0x0A)"

text \<open>The commands recorded in an execution script, and the order of the note and the
  implicit \<open>D\<close>: an implicit \<open>D\<close> comes right after a note.\<close>

fun isCommandEntry :: "script_entry \<Rightarrow> bool" where
  "isCommandEntry (CommandEntry n line) = True"
| "isCommandEntry e = False"

definition recordedCommands :: "script_entry list \<Rightarrow> nat" where
  "recordedCommands es = length (filter isCommandEntry es)"

fun isImplicitDone :: "script_entry \<Rightarrow> bool" where
  "isImplicitDone (ImplicitDone n) = True"
| "isImplicitDone e = False"

fun isLimitNote :: "script_entry \<Rightarrow> bool" where
  "isLimitNote (LimitNote l) = True"
| "isLimitNote e = False"

fun noteBeforeDoneFrom :: "bool \<Rightarrow> script_entry list \<Rightarrow> bool" where
  "noteBeforeDoneFrom afterNote [] = True"
| "noteBeforeDoneFrom afterNote (e # es) =
     ((isImplicitDone e \<longrightarrow> afterNote) \<and> noteBeforeDoneFrom (isLimitNote e) es)"

definition noteBeforeDone :: "script_entry list \<Rightarrow> bool" where
  "noteBeforeDone es = noteBeforeDoneFrom False es"

fun isRun :: "call \<Rightarrow> bool" where
  "isRun (Run n) = True"
| "isRun c = False"

text \<open>Exactly \<open>w\<close> hexadecimal digits of \<open>x\<close>, the most significant first.\<close>

fun hexDigits :: "nat \<Rightarrow> nat \<Rightarrow> string" where
  "hexDigits 0 x = []"
| "hexDigits (Suc w) x = hexDigits w (x div 16) @ [hex_digit (x mod 16)]"

text \<open>The calls of one cycle of a TICK command, and what it means that a state \<open>u\<close>
  differs from \<open>t\<close> by one message sent and nothing read.\<close>

definition driveCycle :: "tick \<Rightarrow> call list" where
  "driveCycle t =
     [SetPort (tickingPortID t) (inPhaseValue t), Run (timestepsPerPhase t),
      SetPort (tickingPortID t) (outOfPhaseValue t), Run (timestepsPerPhase t)]"

definition responds :: "driver \<Rightarrow> driver \<Rightarrow> bool" where
  "responds t u =
     (commandStream u = commandStream t \<and> receivedDone u = receivedDone t
      \<and> messageStream u = messageStream t @ [last (messageStream u)]
      \<and> framed (last (messageStream u)))"

text \<open>What holds of the execution script and the counter of commands all along a run
  with the limit \<open>L\<close>, whatever the input.\<close>

definition scriptInvariant :: "int \<Rightarrow> driver \<Rightarrow> bool" where
  "scriptInvariant L s =
     (executionScriptLimit s = L \<and> 1 \<le> executionScriptCommandCount s
      \<and> executionScriptCommandCount s \<le> L + 1
      \<and> (case executionScript s of
            None \<Rightarrow> False
          | Some es \<Rightarrow> int (recordedCommands es) = executionScriptCommandCount s - 1
                       \<and> noteBeforeDone es))"

text \<open>The execution script ends with the note about the limit \<open>L\<close> and the implicit \<open>D\<close>
  numbered \<open>L + 1\<close>.\<close>

definition endsWithNoteDone :: "int \<Rightarrow> script_entry list \<Rightarrow> bool" where
  "endsWithNoteDone L es = (take 2 (rev es) = [ImplicitDone (L + 1), LimitNote L])"

text \<open>What holds of the execution script and its two counters as long as the counter of
  messages does not wrap around: the counter of commands is one more than the commands recorded and at
  most one more than the counter of messages, every implicit \<open>D\<close> comes right after a
  note, and once a command has been read (\<open>started\<close>) and the counter has reached
  \<open>L + 1\<close> the script ends with the note and the implicit \<open>D\<close>.\<close>

definition scriptShape :: "int \<Rightarrow> bool \<Rightarrow> driver \<Rightarrow> bool" where
  "scriptShape L started s =
     (executionScriptLimit s = L \<and> 1 \<le> executionScriptCommandCount s
      \<and> executionScriptCommandCount s \<le> L + 1
      \<and> executionScriptCommandCount s \<le> executionScriptMessageCount s + 1
      \<and> (case executionScript s of
            None \<Rightarrow> False
          | Some es \<Rightarrow> int (recordedCommands es) = executionScriptCommandCount s - 1
                       \<and> noteBeforeDone es
                       \<and> (started \<and> executionScriptCommandCount s = L + 1
                            \<longrightarrow> endsWithNoteDone L es)))"

text \<open>What holds in the loop of \<open>simulation_body\<close> on an input of \<open>N\<close> characters:
  \<open>pending\<close> is 1 between the reading of a command and its response and 0 otherwise.
  Every message but the first answers a command, and every command takes at least one
  character of the input, so the counter of messages stays a 32-bit \<open>int\<close>.\<close>

definition loopInvariant :: "int \<Rightarrow> int \<Rightarrow> bool \<Rightarrow> int \<Rightarrow> driver \<Rightarrow> bool" where
  "loopInvariant L N started pending s =
     (scriptShape L started s
      \<and> executionScriptCommandCount s \<le> executionScriptMessageCount s + pending
      \<and> executionScriptMessageCount s + int (length (commandStream s)) + pending \<le> N + 1)"


text \<open>The digits of a buffer as the decoder meets them, last character first, and the
  integer that a buffer of a port of \<open>W\<close> bits holds.\<close>

definition revDigits :: "byte list \<Rightarrow> string" where
  "revDigits bs = concat (map (\<lambda>b. [hex_digit (unat b mod 16), hex_digit (unat b div 16)]) bs)"

definition bufferValue :: "int \<Rightarrow> bool \<Rightarrow> byte list \<Rightarrow> int" where
  "bufferValue W isSigned bytes =
     (let x = int (valueOfBytes bytes) mod 2 ^ nat W
      in if isSigned \<and> 2 ^ nat (W - 1) \<le> x then x - 2 ^ nat W else x)"

text \<open>A simulation to run the driver on: port 0 (1 bit) and port 1 (8 bits) can be set,
  port 7 (8 bits) can be read and holds 1; the simulation has logged the three bytes
  \<open>a\<close>, NUL, \<open>b\<close>; the memory after the two sentinel buffers differs.\<close>

definition exampleEngine :: engine where
  "exampleEngine =
     \<lparr>port_getter = (\<lambda>i. if i = 7 then Some 8 else None),
      port_setter = (\<lambda>i. if i = 0 then Some 1 else if i = 1 then Some 8 else None),
      port_value = (\<lambda>cs i. [0x01]),
      simulation_log = (\<lambda>cs. [CHR ''a'', CHR 0x00, CHR ''b'']),
      beyond_sentinelPortValue = (\<lambda>i. 0xAA),
      beyond_sentinelValue = (\<lambda>i. 0x55),
      simulationTraceFilepath = ''trace'',
      feof_stdin = False\<rparr>"

section \<open>Properties of the driver\<close>

subsection \<open>What writing a message and recording a command leave alone\<close>

lemma writeMessage_fields [simp]:
  "commandStream (writeMessage c b s) = commandStream s"
  "messageStream (writeMessage c b s) = messageStream s @ [[c] @ '' '' @ b @ [CHR 0x0A]]"
  "executionScriptCommandCount (writeMessage c b s) = executionScriptCommandCount s"
  "executionScriptLimit (writeMessage c b s) = executionScriptLimit s"
  "stringBuffer (writeMessage c b s) = stringBuffer s"
  "log_offset (writeMessage c b s) = log_offset s"
  "receivedDone (writeMessage c b s) = receivedDone s"
  "traceInitialized (writeMessage c b s) = traceInitialized s"
  "calls (writeMessage c b s) = calls s"
  by (simp_all add: writeMessage_def)

lemma recordCommand_fields [simp]:
  "commandStream (recordCommand s) = commandStream s"
  "messageStream (recordCommand s) = messageStream s"
  "executionScriptMessageCount (recordCommand s) = executionScriptMessageCount s"
  "executionScriptLimit (recordCommand s) = executionScriptLimit s"
  "stringBuffer (recordCommand s) = stringBuffer s"
  "log_offset (recordCommand s) = log_offset s"
  "receivedDone (recordCommand s) = receivedDone s"
  "traceInitialized (recordCommand s) = traceInitialized s"
  "calls (recordCommand s) = calls s"
  by (simp_all add: recordCommand_def Let_def split: option.splits)

lemma getline_line:
  "CHR 0x0A \<notin> set l \<Longrightarrow> getline (l @ CHR 0x0A # rest) = (l @ [CHR 0x0A], rest)"
  by (induction l) auto

lemma readCommand_line:
  assumes "commandStream s = l @ CHR 0x0A # rest" and "CHR 0x0A \<notin> set l"
  shows "readCommand env s =
           Inr (l @ [CHR 0x0A],
                recordCommand (s\<lparr>commandStream := rest, stringBuffer := l @ [CHR 0x0A]\<rparr>))"
  using assms by (simp add: readCommand_def getline_line)

subsection \<open>The TRACE command\<close>

text \<open>
  Claim C10. A TRACE command line \<open>W c\<close> whose argument \<open>c\<close> is neither \<open>0\<close> nor \<open>1\<close>
  (a command line has its only newline at its end, so \<open>c\<close> is not a newline) is not
  an error: the driver calls no trace function of the simulation, leaves the trace
  uninitialised if it was, and answers \<open>k ack\<close>.
\<close>

theorem trace_other_argument_acks:
  assumes "c \<noteq> CHR ''0''" and "c \<noteq> CHR ''1''" and "c \<noteq> CHR 0x0A"
    and "commandStream s = ''W '' @ [c, CHR 0x0A] @ rest"
  shows "\<exists>s'. processCommand env s = Continue s'
           \<and> calls s' = calls s \<and> traceInitialized s' = traceInitialized s
           \<and> messageStream s' = messageStream s @ [''k ack'' @ [CHR 0x0A]]"
proof -
  have "readCommand env s =
          Inr ([CHR ''W'', CHR '' '', c] @ [CHR 0x0A],
               recordCommand (s\<lparr>commandStream := rest,
                                stringBuffer := [CHR ''W'', CHR '' '', c] @ [CHR 0x0A]\<rparr>))"
    by (rule readCommand_line) (use assms in simp_all)
  then show ?thesis
    using assms(1,2)
    by (simp add: processCommand_def nextChar_def peekChar_def processTrace_def sendAck_def)
qed

theorem trace_other_argument_acks_witness:
  "\<exists>s'. processCommand exampleEngine (initialDriver (''W x'' @ [CHR 0x0A]) False (- 1))
           = Continue s'
         \<and> calls s' = [] \<and> traceInitialized s' = False
         \<and> messageStream s' = [''k ack'' @ [CHR 0x0A]]"
  using trace_other_argument_acks
          [of "CHR ''x''" "initialDriver (''W x'' @ [CHR 0x0A]) False (- 1)" "[]" exampleEngine]
  by (simp add: initialDriver_def)

subsection \<open>One response for every command\<close>

lemma framed_message [simp]: "framed (c # CHR '' '' # b @ [CHR 0x0A])"
  by (simp add: framed_def)

lemma raise_not_Continue [simp]: "raise e t \<noteq> Continue u"
  by (simp add: raise_def failWithError_def split: error.splits)

lemma failWithError_not_Continue [simp]: "failWithError text t \<noteq> Continue u"
  by (simp add: failWithError_def)

lemma responds_writeMessage [simp]:
  "commandStream t' = commandStream t \<Longrightarrow> receivedDone t' = receivedDone t
   \<Longrightarrow> messageStream t' = messageStream t \<Longrightarrow> responds t (writeMessage c b t')"
  by (simp add: responds_def)

lemma processSetBits_responds: "processSetBits env cur t = Continue u \<Longrightarrow> responds t u"
  by (auto simp: processSetBits_def sendAck_def split: sum.splits prod.splits if_splits)

lemma processGetBits_responds: "processGetBits env cur t = Continue u \<Longrightarrow> responds t u"
  by (auto simp: processGetBits_def Let_def split: sum.splits prod.splits if_splits)

lemma processRun_responds: "processRun env cur t = Continue u \<Longrightarrow> responds t u"
  by (auto simp: processRun_def sendAck_def split: sum.splits prod.splits if_splits)

lemma processTick_responds: "processTick env cur t = Continue u \<Longrightarrow> responds t u"
  by (auto simp: processTick_def Let_def split: sum.splits prod.splits if_splits)

lemma processTrace_responds: "processTrace env cur t = Continue u \<Longrightarrow> responds t u"
  by (auto simp: processTrace_def sendAck_def Let_def split: sum.splits prod.splits if_splits)

lemma sendLog_responds: "sendLog env t = Continue u \<Longrightarrow> responds t u"
  by (auto simp: sendLog_def Let_def split: if_splits)

lemma readCommand_Inr:
  assumes "readCommand env s = Inr (line, s1)"
  shows "line = fst (getline (commandStream s))" and "line \<noteq> []"
    and "hd line = hd (commandStream s)"
    and "commandStream s1 = snd (getline (commandStream s))"
    and "messageStream s1 = messageStream s" and "receivedDone s1 = receivedDone s"
proof -
  have "hd l = hd cs" if "getline cs = (l, r)" "l \<noteq> []" for cs l r
    using that by (cases cs) (auto split: prod.splits if_splits)
  then show "line = fst (getline (commandStream s))" and "line \<noteq> []"
    and "hd line = hd (commandStream s)"
    and "commandStream s1 = snd (getline (commandStream s))"
    and "messageStream s1 = messageStream s" and "receivedDone s1 = receivedDone s"
    using assms by (auto simp: readCommand_def Let_def split: prod.splits if_splits)
qed

lemma readCommand_not_Continue [simp]: "readCommand env s \<noteq> Inl (Continue u)"
  by (auto simp: readCommand_def Let_def split: prod.splits)

text \<open>
  Claim C8. When \<open>processCommand\<close> accepts a command, that is, returns without a fatal
  error, it has taken exactly one line from the command stream and, by the time it
  returns and the next command can be read, it has written exactly one framed message
  to the message stream; a line whose code is \<open>D\<close> (DONE) writes none.
\<close>

theorem one_response_per_command:
  assumes "processCommand env s = Continue s'"
  shows "commandStream s' = snd (getline (commandStream s))
         \<and> (if hd (commandStream s) = CHR ''D'' then messageStream s' = messageStream s
            else (\<exists>m. messageStream s' = messageStream s @ [m] \<and> framed m))"
proof -
  obtain line s1 where rd: "readCommand env s = Inr (line, s1)"
    using assms by (auto simp: processCommand_def split: sum.splits)
  note r = readCommand_Inr [OF rd]
  have "line \<noteq> []" by (rule r(2))
  then have "\<exists>c cur. line = c # cur" by (cases line) simp_all
  then obtain c cur where line: "line = c # cur" by blast
  have c: "c = hd (commandStream s)"
    using r(3) line by simp
  show ?thesis
  proof (cases "c = CHR ''D''")
    case True
    then show ?thesis
      using assms rd line r c by (auto simp: processCommand_def nextChar_def)
  next
    case False
    then have "responds s1 s'"
      using assms rd line
        processSetBits_responds [of env cur s1 s'] processGetBits_responds [of env cur s1 s']
        processRun_responds [of env cur s1 s'] processTick_responds [of env cur s1 s']
        processTrace_responds [of env cur s1 s'] sendLog_responds [of env s1 s']
      by (auto simp: processCommand_def nextChar_def split: if_splits)
    then show ?thesis
      using False line r c by (auto simp: responds_def)
  qed
qed

lemma run_one_evaluated:
  "processCommand exampleEngine (initialDriver (''R 1'' @ [CHR 0x0A] @ ''L'') False (- 1)) =
     Continue ((initialDriver ''L'' False (- 1))
       \<lparr>messageStream := [''k ack'' @ [CHR 0x0A]], executionScriptMessageCount := 1,
        stringBuffer := ''R 1'' @ [CHR 0x0A], calls := [Run 1]\<rparr>)"
  by code_simp

theorem one_response_per_command_witness:
  "commandStream ((initialDriver ''L'' False (- 1))
       \<lparr>messageStream := [''k ack'' @ [CHR 0x0A]], executionScriptMessageCount := 1,
        stringBuffer := ''R 1'' @ [CHR 0x0A], calls := [Run 1]\<rparr>) = ''L''
   \<and> (\<exists>m. [''k ack'' @ [CHR 0x0A]] = [] @ [m] \<and> framed m)"
  using one_response_per_command [OF run_one_evaluated]
  by (simp add: initialDriver_def)

subsection \<open>Hexadecimal digits\<close>

declare hex_of_nat.simps [simp del]

lemma hex_of_nat_small: "n < 16 \<Longrightarrow> hex_of_nat n = [hex_digit n]"
  by (subst hex_of_nat.simps) simp

lemma hex_of_nat_large:
  "16 \<le> n \<Longrightarrow> hex_of_nat n = hex_of_nat (n div 16) @ [hex_digit (n mod 16)]"
  by (subst hex_of_nat.simps) simp

lemma replicate_numeral: "replicate (numeral k) x = x # replicate (pred_numeral k) x"
  by (simp add: numeral_eq_Suc)

lemma hexDigits_zero: "hexDigits w 0 = replicate w CHR ''0''"
  by (induction w) (simp_all add: hex_digit_def replicate_append_same)

lemma length_hexDigits [simp]: "length (hexDigits w x) = w"
  by (induction w arbitrary: x) simp_all

lemma length_hex_of_nat: "0 < w \<Longrightarrow> x < 16 ^ w \<Longrightarrow> length (hex_of_nat x) \<le> w"
proof (induction w arbitrary: x)
  case 0
  then show ?case by simp
next
  case (Suc w)
  show ?case
  proof (cases "x < 16")
    case True
    then show ?thesis by (simp add: hex_of_nat_small)
  next
    case False
    then have w: "0 < w" using Suc.prems by (cases w) simp_all
    have x: "x div 16 < 16 ^ w" using Suc.prems by (simp add: less_mult_imp_div_less)
    show ?thesis
      using False Suc.IH [OF w x] by (simp add: hex_of_nat_large)
  qed
qed

lemma fmt_0X_hexDigits: "0 < w \<Longrightarrow> x < 16 ^ w \<Longrightarrow> fmt_0X w x = hexDigits w x"
proof (induction w arbitrary: x)
  case 0
  then show ?case by simp
next
  case (Suc w)
  show ?case
  proof (cases "x < 16")
    case True
    then show ?thesis
      by (simp add: fmt_0X_def hex_of_nat_small hexDigits_zero)
  next
    case False
    then have w: "0 < w" using Suc.prems by (cases w) simp_all
    have x: "x div 16 < 16 ^ w" using Suc.prems by (simp add: less_mult_imp_div_less)
    have "fmt_0X w (x div 16) = hexDigits w (x div 16)"
      using Suc.IH [OF w x] .
    moreover have "length (hex_of_nat (x div 16)) \<le> w"
      using w x by (rule length_hex_of_nat)
    ultimately show ?thesis
      using False by (simp add: fmt_0X_def hex_of_nat_large Suc_diff_le)
  qed
qed

lemma fmt_02X_digits: "fmt_02X b = [hex_digit (unat b div 16), hex_digit (unat b mod 16)]"
proof -
  have "unat b < 16 ^ 2" using unsigned_less [of b, where ?'a = nat] by simp
  then have "fmt_0X 2 (unat b) = hexDigits 2 (unat b)"
    by (intro fmt_0X_hexDigits) simp_all
  moreover have "unat b div 16 mod 16 = unat b div 16"
    using \<open>unat b < 16 ^ 2\<close> by (simp add: less_mult_imp_div_less)
  ultimately show ?thesis
    by (simp add: fmt_02X_def numeral_2_eq_2)
qed

lemma hexText_bytesOfNat:
  "concat (map fmt_02X (rev (bytesOfNat n x))) = hexDigits (2 * n) x"
proof (induction n arbitrary: x)
  case 0
  then show ?case by simp
next
  case (Suc n)
  have a: "x div 16 div 16 = x div 256" by (simp add: div_mult2_eq)
  have "x mod (16 * 16) = 16 * (x div 16 mod 16) + x mod 16"
    by (rule mod_mult2_eq)
  then have m: "x mod 256 = 16 * (x div 16 mod 16) + x mod 16" by simp
  have b: "x mod 256 div 16 = x div 16 mod 16" and c: "x mod 256 mod 16 = x mod 16"
    by (simp_all add: m)
  have u: "unat (of_nat (x mod 256) :: byte) = x mod 256"
    by (simp add: unat_of_nat)
  have "concat (map fmt_02X (rev (bytesOfNat (Suc n) x)))
          = concat (map fmt_02X (rev (bytesOfNat n (x div 256)))) @ fmt_02X (of_nat (x mod 256))"
    by simp
  also have "\<dots> = hexDigits (2 * n) (x div 256)
                    @ [hex_digit (x mod 256 div 16), hex_digit (x mod 256 mod 16)]"
    by (simp only: Suc.IH fmt_02X_digits u)
  also have "\<dots> = hexDigits (2 * Suc n) x"
    by (simp add: a b c)
  finally show ?case .
qed

lemma byte_of_nat_mod: "(of_nat (x mod 256) :: byte) = of_nat x"
  by (simp add: word_of_nat_eq_iff take_bit_eq_mod)

lemma bytesOfNat_map: "bytesOfNat n x = map (\<lambda>i. of_nat (x div 256 ^ i)) [0..<n]"
proof (induction n arbitrary: x)
  case 0
  then show ?case by simp
next
  case (Suc n)
  have "[0..<Suc n] = 0 # map Suc [0..<n]"
    by (simp add: upt_conv_Cons map_Suc_upt del: upt_Suc)
  then show ?case
    by (simp add: Suc.IH byte_of_nat_mod div_mult2_eq del: upt_Suc)
qed

subsection \<open>The TICK command without a sentinel\<close>

lemma ucast_drop: "(ucast (drop_bit k (v::64 word)) :: byte) = of_nat (unat v div 2 ^ k)"
proof -
  have "(ucast (drop_bit k v) :: byte) = of_nat (unat (drop_bit k v))"
    by simp
  also have "unat (drop_bit k v) = drop_bit k (unat v)"
    by (rule unat_drop_bit_eq)
  also have "drop_bit k (unat v) = unat v div 2 ^ k"
    by (rule drop_bit_eq_div)
  finally show ?thesis .
qed

lemma uint64_bytes_eq: "uint64_bytes v = bytesOfNat 8 (unat v)"
  by (simp add: uint64_bytes_def bytesOfNat_map ucast_drop power_mult del: upt_Suc)

lemma sint_succ:
  assumes "sint (c::32 word) < sint (m::32 word)"
  shows "sint (c + 1) = sint c + 1"
proof -
  have lo: "- (2 ^ 31) \<le> sint c" using sint_ge [of c] by simp
  have hi: "sint m < 2 ^ 31" using sint_lt [of m] by simp
  have "sint (c + 1) = signed_take_bit 31 (sint c + 1)"
    by (simp add: sint_word_ariths)
  also have "\<dots> = sint c + 1"
    by (rule signed_take_bit_int_eq_self) (use lo hi assms in simp_all)
  finally show ?thesis .
qed

lemma tickLoop_no_sentinel:
  assumes "sentinel t = None" and "sint c \<le> sint m" and "k = nat (sint m - sint c)"
  shows "tickLoop env t m c buf cs = (m + 1, cs @ concat (replicate k (driveCycle t)))"
  using assms(2,3)
proof (induction k arbitrary: c cs)
  case 0
  then have "sint c = sint m" by simp
  then have "c = m" by (rule signed_word_eqI)
  then show ?case by (subst tickLoop.simps) simp
next
  case (Suc k)
  then have lt: "sint c < sint m" by simp
  have s: "sint (c + 1) = sint c + 1" using lt by (rule sint_succ)
  have "tickLoop env t m (c + 1) buf (cs @ driveCycle t)
          = (m + 1, (cs @ driveCycle t) @ concat (replicate k (driveCycle t)))"
    by (rule Suc.IH) (use Suc.prems s in simp_all)
  then show ?case
    using lt assms(1) by (subst tickLoop.simps) (simp add: driveCycle_def)
qed

lemma scanInt_range:
  "scanInt cur d = Inr (v, rest) \<Longrightarrow> - 2147483648 \<le> v \<and> v \<le> 2147483647"
  by (auto simp: scanInt_def split: option.splits prod.splits if_splits)

lemma scanTickCounts_range:
  "scanTickCounts cur = Inr (ts, n, rest) \<Longrightarrow> 1 \<le> n \<and> n \<le> 2147483647"
  by (auto simp: scanTickCounts_def split: sum.splits prod.splits if_splits
           dest: scanInt_range)

lemma scanTick_maxCycleCount:
  "scanTick env cur = Inr t \<Longrightarrow> 1 \<le> maxCycleCount t \<and> maxCycleCount t \<le> 2147483647"
  by (auto simp: scanTick_def split: sum.splits prod.splits if_splits
           dest: scanTickCounts_range)

lemma sint_word32_of_int:
  "- 2147483648 \<le> x \<Longrightarrow> x \<le> 2147483647 \<Longrightarrow> sint (word_of_int x :: 32 word) = x"
  by (simp add: sint_sbintrunc' signed_take_bit_int_eq_self)

lemma unat_word64_of_int:
  "0 \<le> x \<Longrightarrow> x \<le> 2147483647 \<Longrightarrow> unat (word_of_int x :: 64 word) = nat x"
  by (simp add: unat_eq_nat_uint uint_word_of_int take_bit_eq_mod)

lemma fmt_08X_64: "fmt_08X 64 = ''00000040''"
  by (simp add: fmt_08X_def fmt_0X_def hex_of_nat_large hex_of_nat_small hex_digit_def
                replicate_numeral)

lemma sendUintAsBits_eq: "sendUintAsBits v = Inr (''00000040 '' @ fmt_0X 16 (unat v))"
proof -
  have "unat v < 16 ^ 16" using unsigned_less [of v, where ?'a = nat] by simp
  then have "fmt_0X 16 (unat v) = hexDigits 16 (unat v)"
    by (intro fmt_0X_hexDigits) simp_all
  moreover have "concat (map fmt_02X (rev (bytesOfNat 8 (unat v)))) = hexDigits (2 * 8) (unat v)"
    by (rule hexText_bytesOfNat)
  moreover have "length (uint64_bytes v) = 8" by (simp add: uint64_bytes_def)
  ultimately show ?thesis
    by (simp add: sendUintAsBits_def sendBits_def sendBitsValue_def fmt_08X_64 wrap32_def
                  c_div_def uint64_bytes_eq)
qed

text \<open>
  Claim C5. A TICK command that parses, has no sentinel and has the max cycle count \<open>N\<close>
  (which the parser lets through only when \<open>N \<ge> 1\<close>) makes \<open>N\<close> times the four calls
  of a cycle, set in-phase, run, set out-of-phase, run: \<open>2N\<close> calls of
  \<open>run_simulation\<close>, each with the timesteps per phase. It answers with a \<open>b\<close> message of
  width \<open>00000040\<close> (64 bits, unsigned) whose value is \<open>N\<close> in sixteen hexadecimal digits.
\<close>

theorem tick_without_sentinel:
  assumes "readCommand env s = Inr (CHR ''T'' # cur, s1)" and "scanTick env cur = Inr t"
    and "sentinel t = None" and "maxCycleCount t = N"
  shows "1 \<le> N
         \<and> processCommand env s =
             Continue (writeMessage CHR ''b'' (''00000040 '' @ fmt_0X 16 (nat N))
                         (s1\<lparr>calls := calls s1 @ concat (replicate (nat N) (driveCycle t))\<rparr>))
         \<and> filter isRun (concat (replicate (nat N) (driveCycle t)))
             = replicate (2 * nat N) (Run (timestepsPerPhase t))"
proof -
  have N: "1 \<le> N" "N \<le> 2147483647"
    using scanTick_maxCycleCount [OF assms(2)] assms(4) by simp_all
  define m :: "32 word" where "m = word_of_int N"
  have sm: "sint m = N" unfolding m_def using N by (intro sint_word32_of_int) simp_all
  have loop: "tickLoop env t m 0 [] (calls s1)
                = (m + 1, calls s1 @ concat (replicate (nat N) (driveCycle t)))"
    by (rule tickLoop_no_sentinel) (use assms(3) sm N in simp_all)
  have u: "unat (word_of_int (sint m) :: 64 word) = nat N"
    unfolding sm using N by (intro unat_word64_of_int) simp_all
  have proc: "processTick env cur s1 =
      Continue (writeMessage CHR ''b'' (''00000040 '' @ fmt_0X 16 (nat N))
                  (s1\<lparr>calls := calls s1 @ concat (replicate (nat N) (driveCycle t))\<rparr>))"
    using assms(2,3,4) loop u
    by (simp add: processTick_def sendUintAsBits_eq flip: m_def)
  have runs: "filter isRun (concat (replicate k (driveCycle t)))
             = replicate (2 * k) (Run (timestepsPerPhase t))" for k
    by (induction k) (simp_all add: driveCycle_def)
  show ?thesis
    using N(1) proc runs assms(1) by (simp add: processCommand_def nextChar_def)
qed

lemma tick_three_read:
  "readCommand exampleEngine (initialDriver (''T 0 1,0-A*3'' @ [CHR 0x0A]) False (- 1))
     = Inr (CHR ''T'' # '' 0 1,0-A*3'' @ [CHR 0x0A],
            (initialDriver [] False (- 1))\<lparr>stringBuffer := ''T 0 1,0-A*3'' @ [CHR 0x0A]\<rparr>)"
  by code_simp

lemma tick_three_scan:
  "scanTick exampleEngine ('' 0 1,0-A*3'' @ [CHR 0x0A])
     = Inr \<lparr>tickingPortID = 0, inPhaseValue = [1], outOfPhaseValue = [0],
            timestepsPerPhase = 10, maxCycleCount = 3, sentinel = None\<rparr>"
  by code_simp

theorem tick_without_sentinel_witness:
  "processCommand exampleEngine (initialDriver (''T 0 1,0-A*3'' @ [CHR 0x0A]) False (- 1)) =
      Continue ((initialDriver [] False (- 1))
        \<lparr>messageStream := [''b 00000040 0000000000000003'' @ [CHR 0x0A]],
         executionScriptMessageCount := 1,
         stringBuffer := ''T 0 1,0-A*3'' @ [CHR 0x0A],
         calls := [SetPort 0 [1], Run 10, SetPort 0 [0], Run 10,
                   SetPort 0 [1], Run 10, SetPort 0 [0], Run 10,
                   SetPort 0 [1], Run 10, SetPort 0 [0], Run 10]\<rparr>)"
  using tick_without_sentinel [OF tick_three_read tick_three_scan, of 3]
  by (simp add: fmt_0X_def hex_of_nat_small hex_digit_def driveCycle_def writeMessage_def
                initialDriver_def shouldLogMessageToExecutionScript_def wrap32_def
                replicate_numeral)

subsection \<open>Counts in commands\<close>









subsection \<open>The limit of the execution script\<close>



lemma wrap32_id: "- 2147483648 \<le> x \<Longrightarrow> x \<le> 2147483647 \<Longrightarrow> wrap32 x = x"
  by (simp add: wrap32_def)


lemma state_of_simps [simp]:
  "state_of (Continue s) = s" "state_of (Failed s) = s" "state_of (Aborted s) = s"
  by (simp_all add: state_of_def)



lemma scriptInvariant_update [simp]:
  "scriptInvariant L (s\<lparr>calls := cs\<rparr>) = scriptInvariant L s"
  "scriptInvariant L (s\<lparr>log_offset := lo\<rparr>) = scriptInvariant L s"
  "scriptInvariant L (s\<lparr>receivedDone := d\<rparr>) = scriptInvariant L s"
  "scriptInvariant L (s\<lparr>traceInitialized := ti\<rparr>) = scriptInvariant L s"
  "scriptInvariant L (s\<lparr>commandStream := inp\<rparr>) = scriptInvariant L s"
  "scriptInvariant L (s\<lparr>stringBuffer := sb\<rparr>) = scriptInvariant L s"
  by (simp_all add: scriptInvariant_def split: option.splits)














lemma scriptShape_update [simp]:
  "scriptShape L b (s\<lparr>calls := cs\<rparr>) = scriptShape L b s"
  "scriptShape L b (s\<lparr>log_offset := lo\<rparr>) = scriptShape L b s"
  "scriptShape L b (s\<lparr>receivedDone := d\<rparr>) = scriptShape L b s"
  "scriptShape L b (s\<lparr>traceInitialized := ti\<rparr>) = scriptShape L b s"
  "scriptShape L b (s\<lparr>commandStream := inp\<rparr>) = scriptShape L b s"
  "scriptShape L b (s\<lparr>stringBuffer := sb\<rparr>) = scriptShape L b s"
  by (simp_all add: scriptShape_def split: option.splits)

lemma loopInvariant_update [simp]:
  "loopInvariant L N b j (s\<lparr>calls := cs\<rparr>) = loopInvariant L N b j s"
  "loopInvariant L N b j (s\<lparr>log_offset := lo\<rparr>) = loopInvariant L N b j s"
  "loopInvariant L N b j (s\<lparr>traceInitialized := ti\<rparr>) = loopInvariant L N b j s"
  "loopInvariant L N b j (s\<lparr>stringBuffer := sb\<rparr>) = loopInvariant L N b j s"
  by (simp_all add: loopInvariant_def)





















subsection \<open>Values one digit too long\<close>

text \<open>
  Claim C2 does not hold of the code. After the loop of \<open>scanHexBits\<close> the test for
  characters left over is \<open>reverseScanCursor > firstCharacterOfValue\<close>, which is false
  when exactly one character is left: that character is dropped. The command \<open>S 1 1FF\<close>
  on a port of 8 bits is accepted, the port is set to \<open>FF\<close> and the command
  acknowledged, where three digits do not fit in one byte.
\<close>

theorem one_digit_overflow_accepted:
  "processCommand exampleEngine (initialDriver (''S 1 1FF'' @ [CHR 0x0A]) False (- 1)) =
     Continue ((initialDriver [] False (- 1))
       \<lparr>messageStream := [''k ack'' @ [CHR 0x0A]], executionScriptMessageCount := 1,
        stringBuffer := ''S 1 1FF'' @ [CHR 0x0A], calls := [SetPort 1 [0xFF]]\<rparr>)"
  by code_simp

subsection \<open>The sentinel of a TICK command\<close>

text \<open>
  Claim C3 does not hold of the code. The sentinel buffers hold \<open>(bitWidth + 7) / 8\<close>
  bytes, and \<open>memcmp\<close> is given \<open>bitWidth\<close> as its length. With a sentinel port of 8 bits
  that holds 1, the expected value 1 and different memory after the two one-byte
  buffers, the comparison of 8 bytes fails although the buffers are equal: both cycles
  run and the answer is 2, where a comparison of one byte stops before the first cycle.
\<close>

theorem sentinel_compares_bit_width_bytes:
  "processCommand exampleEngine (initialDriver (''T 0 1,0-1*2 7=1'' @ [CHR 0x0A]) False (- 1)) =
     Continue ((initialDriver [] False (- 1))
       \<lparr>messageStream := [''b 00000040 0000000000000002'' @ [CHR 0x0A]],
        executionScriptMessageCount := 1,
        stringBuffer := ''T 0 1,0-1*2 7=1'' @ [CHR 0x0A],
        calls := [GetPort 7, SetPort 0 [1], Run 1, SetPort 0 [0], Run 1,
                  GetPort 7, SetPort 0 [1], Run 1, SetPort 0 [0], Run 1]\<rparr>)"
  by code_simp

subsection \<open>The log\<close>

text \<open>
  Claim C9 does not hold of the code when the log holds a NUL byte. \<open>sendLog\<close> reads the
  three bytes \<open>a\<close>, NUL, \<open>b\<close>, announces 3 bytes and writes them with \<open>%s\<close>, which
  stops at the NUL: the payload is \<open>a\<close> alone, and the log cursor has moved past all
  three.
\<close>

theorem log_with_nul_truncated:
  "processCommand exampleEngine (initialDriver (''L'' @ [CHR 0x0A]) False (- 1)) =
     Continue ((initialDriver [] False (- 1))
       \<lparr>messageStream := [''l 00000003 a'' @ [CHR 0x0A]], executionScriptMessageCount := 1,
        stringBuffer := ''L'' @ [CHR 0x0A], log_offset := Some 3\<rparr>)"
  by code_simp

subsection \<open>The codec\<close>

lemma and_mask_small: assumes "unat (b::byte) < 2 ^ k" shows "b AND mask k = b"
proof -
  have "int (unat b) < int (2 ^ k)" using assms by (simp only: of_nat_less_iff)
  moreover have "int (unat b) = uint b" by (rule uint_nat [symmetric])
  moreover have "int (2 ^ k) = 2 ^ k" by simp
  ultimately have "uint b < 2 ^ k" by (simp only:)
  then show ?thesis by (simp only: mask_eq_iff)
qed

lemma and_not_mask_small: assumes "unat (b::byte) < 2 ^ k" shows "b AND NOT (mask k) = 0"
proof -
  have "b AND NOT (mask k) = (b AND mask k) AND NOT (mask k)"
    using and_mask_small [OF assms] by simp
  also have "\<dots> = 0"
    by (simp add: and.assoc)
  finally show ?thesis .
qed

lemma and_bit_small: assumes "unat (b::byte) < 2 ^ k" shows "b AND 2 ^ k = 0"
proof -
  have z: "mask k AND (2 ^ k :: byte) = 0" by (rule bit_eqI) (auto simp: bit_simps)
  have "b AND 2 ^ k = (b AND mask k) AND 2 ^ k" using and_mask_small [OF assms] by simp
  also have "\<dots> = b AND (mask k AND 2 ^ k)" by (simp add: and.assoc)
  finally show ?thesis using z by simp
qed

lemma int_not_and_255: "0 \<le> u \<Longrightarrow> u < 256 \<Longrightarrow> (NOT u) AND 255 = 255 - (u::int)"
proof -
  assume u: "0 \<le> u" "u < 256"
  have a: "- u - 1 = 255 - u + (- 1) * 256" by simp
  have b: "(- u - 1) mod 256 = (255 - u) mod 256"
    by (subst a) (rule mod_mult_self1)
  have "(NOT u) AND 255 = take_bit 8 (NOT u)"
    by (simp add: take_bit_eq_mask mask_eq_exp_minus_1)
  also have "\<dots> = (- u - 1) mod 256"
    by (simp add: take_bit_eq_mod not_int_def)
  also have "\<dots> = 255 - u"
    using u by (simp add: b)
  finally show ?thesis .
qed

lemma unat_NOT: "unat (NOT (b::byte)) = 255 - unat b"
proof -
  have "uint (NOT b) = take_bit 8 (NOT (uint b))"
    by (simp add: unsigned_not_eq)
  also have "\<dots> = (NOT (uint b)) AND 255"
    by (simp add: take_bit_eq_mask mask_eq_exp_minus_1)
  also have "\<dots> = 255 - uint b"
    using uint_lt2p [of b] by (intro int_not_and_255) simp_all
  finally have "int (unat (NOT b)) = 255 - int (unat b)"
    by (simp only: uint_nat)
  then show ?thesis by linarith
qed

lemma and_not_mask_large: assumes "256 - 2 ^ k \<le> unat (b::byte)" shows "b AND NOT (mask k) = NOT (mask k)"
proof -
  have lt: "unat b < 256" using unsigned_less [of b, where ?'a = nat] by simp
  have "unat (NOT b) < 2 ^ k"
    using assms lt by (simp add: unat_NOT) 
  then have "NOT b AND NOT (mask k) = 0" by (rule and_not_mask_small)
  then have "NOT (b OR mask k) = 0" by simp
  then have "b OR mask k = - 1"
    by (metis word_not_not bit.compl_zero)
  then have "(b OR mask k) AND NOT (mask k) = NOT (mask k)" by simp
  moreover have "(b OR mask k) AND NOT (mask k) = b AND NOT (mask k)"
    by (rule bit_eqI) (auto simp: bit_simps)
  ultimately show ?thesis by simp
qed

lemma and_bit_large: assumes "256 - 2 ^ k \<le> unat (b::byte)" and "k < 8" shows "b AND 2 ^ k \<noteq> 0"
proof
  assume z: "b AND 2 ^ k = 0"
  have lt: "unat b < 256" using unsigned_less [of b, where ?'a = nat] by simp
  have "unat (NOT b) < 2 ^ k"
    using assms lt by (simp add: unat_NOT) 
  then have "NOT b AND 2 ^ k = 0" by (rule and_bit_small)
  then have "(b AND 2 ^ k) OR (NOT b AND 2 ^ k) = 0"
    using z by simp
  moreover have "(b AND 2 ^ k) OR (NOT b AND 2 ^ k) = 2 ^ k"
    by (rule bit_eqI) (auto simp: bit_simps)
  ultimately have "(2 ^ k :: byte) = 0" by simp
  then show False using assms(2) by (simp add: exp_eq_zero_iff)
qed



lemma div_mod_256:
  fixes s :: int
  assumes "0 \<le> s" and "s \<le> 256"
  shows "s div 256 = (if s = 256 then 1 else 0)" and "s mod 256 = (if s = 256 then 0 else s)"
proof -
  show "s div 256 = (if s = 256 then 1 else 0)"
  proof (cases "s = 256")
    case True
    then show ?thesis by simp
  next
    case False
    then have "s < 256" using assms(2) by simp
    then have "s div 256 = 0" using assms(1) by (intro div_pos_pos_trivial)
    then show ?thesis using False by simp
  qed
  show "s mod 256 = (if s = 256 then 0 else s)"
  proof (cases "s = 256")
    case True
    then show ?thesis by simp
  next
    case False
    then have "s < 256" using assms(2) by simp
    then have "s mod 256 = s" using assms(1) by (intro mod_pos_pos_trivial)
    then show ?thesis using False by simp
  qed
qed

lemma negate_step:
  fixes b :: byte
  assumes "c = 0 \<or> c = 1"
  shows "((NOT (uint b)) AND 0xFF) + c = 255 - uint b + c"
    and "drop_bit 8 (((NOT (uint b)) AND 0xFF) + c) = (if uint b = 0 \<and> c = 1 then 1 else 0)"
    and "uint (word_of_int (((NOT (uint b)) AND 0xFF) + c) :: byte)
           = (if uint b = 0 \<and> c = 1 then 0 else 255 - uint b + c)"
proof -
  have u: "0 \<le> uint b" "uint b < 256" using uint_lt2p [of b] by simp_all
  let ?s = "255 - uint b + c"
  have c01: "0 \<le> c" "c \<le> 1" using assms by auto
  have s: "0 \<le> ?s" "?s \<le> 256" using u c01 by linarith+
  have s256: "?s = 256 \<longleftrightarrow> uint b = 0 \<and> c = 1" using u c01 by arith
  show e: "((NOT (uint b)) AND 0xFF) + c = ?s"
    using u by (simp add: int_not_and_255)
  show "drop_bit 8 (((NOT (uint b)) AND 0xFF) + c) = (if uint b = 0 \<and> c = 1 then 1 else 0)"
    unfolding e drop_bit_eq_div using div_mod_256(1) [OF s] s256 by simp
  have "uint (word_of_int ?s :: byte) = ?s mod 256"
    by (subst uint_word_of_int) (simp add: take_bit_eq_mod)
  then show "uint (word_of_int (((NOT (uint b)) AND 0xFF) + c) :: byte)
           = (if uint b = 0 \<and> c = 1 then 0 else 255 - uint b + c)"
    unfolding e using div_mod_256(2) [OF s] s256 by simp
qed

lemma negateCarry_01: "c = 0 \<or> c = 1 \<Longrightarrow> negateCarry c bs = 0 \<or> negateCarry c bs = 1"
proof (induction bs arbitrary: c)
  case Nil
  then show ?case by simp
next
  case (Cons b bs)
  have "negateCarry c (b # bs) = negateCarry (if uint b = 0 \<and> c = 1 then 1 else 0) bs"
    by (simp only: negateCarry.simps negate_step(2) [OF Cons.prems])
  then show ?case using Cons.IH [of "if uint b = 0 \<and> c = 1 then 1 else 0"] by simp
qed

lemma length_negateBytes [simp]: "length (negateBytes c bs) = length bs"
  by (induction bs arbitrary: c) (simp_all add: Let_def)

lemma valueOfBytes_less: "valueOfBytes bs < 256 ^ length bs"
proof (induction bs)
  case Nil
  then show ?case by simp
next
  case (Cons b bs)
  have "unat b < 256" using unsigned_less [of b, where ?'a = nat] by simp
  then have "unat b + 256 * valueOfBytes bs < 256 + 256 * valueOfBytes bs" by simp
  also have "\<dots> = 256 * (valueOfBytes bs + 1)" by simp
  also have "\<dots> \<le> 256 * 256 ^ length bs"
    using Cons.IH by (intro mult_le_mono2) simp
  finally show ?case by simp
qed

lemma negate_value:
  assumes "c = 0 \<or> c = 1"
  shows "int (valueOfBytes (negateBytes c bs)) + 256 ^ length bs * negateCarry c bs
           = 256 ^ length bs - 1 - int (valueOfBytes bs) + c"
  using assms
proof (induction bs arbitrary: c)
  case Nil
  then show ?case by simp
next
  case (Cons b bs)
  let ?c' = "(if uint b = 0 \<and> c = 1 then 1 else 0) :: int"
  let ?b' = "word_of_int (((NOT (uint b)) AND 0xFF) + c) :: byte"
  have c': "?c' = 0 \<or> ?c' = 1" by simp
  note IH = Cons.IH [OF c']
  have ub: "int (unat b) = uint b" by (rule uint_nat [symmetric])
  have st: "int (unat ?b') = (if uint b = 0 \<and> c = 1 then 0 else 255 - uint b + c)"
    using negate_step(3) [OF Cons.prems, of b] by (simp only: uint_nat)
  have nb: "negateBytes c (b # bs) = ?b' # negateBytes ?c' bs"
    by (simp only: negateBytes.simps Let_def negate_step(2) [OF Cons.prems])
  have nc: "negateCarry c (b # bs) = negateCarry ?c' bs"
    by (simp only: negateCarry.simps negate_step(2) [OF Cons.prems])
  have "int (valueOfBytes (negateBytes c (b # bs))) + 256 ^ length (b # bs) * negateCarry c (b # bs)
      = int (unat ?b') + 256 * (int (valueOfBytes (negateBytes ?c' bs)) + 256 ^ length bs * negateCarry ?c' bs)"
    unfolding nb nc by (simp add: algebra_simps)
  also have "\<dots> = int (unat ?b') + 256 * (256 ^ length bs - 1 - int (valueOfBytes bs) + ?c')"
    unfolding IH ..
  also have "\<dots> = 256 ^ length (b # bs) - 1 - int (valueOfBytes (b # bs)) + c"
    unfolding st using Cons.prems by (auto simp: ub algebra_simps)
  finally show ?case .
qed

lemma bytesOfNat_valueOfBytes: "bytesOfNat (length bs) (valueOfBytes bs) = bs"
proof (induction bs)
  case Nil
  then show ?case by simp
next
  case (Cons b bs)
  have "unat b < 256" using unsigned_less [of b, where ?'a = nat] by simp
  then show ?case using Cons.IH by (simp add: byte_of_nat_mod)
qed

lemma length_bytesOfNat [simp]: "length (bytesOfNat n x) = n"
  by (induction n arbitrary: x) simp_all

lemma valueOfBytes_bytesOfNat: "x < 256 ^ n \<Longrightarrow> valueOfBytes (bytesOfNat n x) = x"
proof (induction n arbitrary: x)
  case 0
  then show ?case by simp
next
  case (Suc n)
  have "x div 256 < 256 ^ n" using Suc.prems by (simp add: less_mult_imp_div_less)
  then have "valueOfBytes (bytesOfNat n (x div 256)) = x div 256" by (rule Suc.IH)
  then show ?case by (simp add: unat_of_nat)
qed

lemma negateBytes_bytesOfNat:
  assumes "0 < x" and "x < 256 ^ n"
  shows "negateBytes 1 (bytesOfNat n x) = bytesOfNat n (256 ^ n - x)"
    and "negateCarry 1 (bytesOfNat n x) = 0"
proof -
  let ?bs = "bytesOfNat n x"
  let ?w = "valueOfBytes (negateBytes 1 ?bs)"
  have "int ?w + 256 ^ length ?bs * negateCarry 1 ?bs
          = 256 ^ length ?bs - 1 - int (valueOfBytes ?bs) + 1"
    by (rule negate_value) simp
  then have eq: "int ?w + 256 ^ n * negateCarry 1 ?bs = 256 ^ n - int x"
    using valueOfBytes_bytesOfNat [OF assms(2)] by simp
  have "?w < 256 ^ n"
    using valueOfBytes_less [of "negateBytes 1 ?bs"] by simp
  then have "int ?w < int (256 ^ n)" by (simp only: of_nat_less_iff)
  then have lt: "int ?w < 256 ^ n" by simp
  have c: "negateCarry 1 ?bs = 0 \<or> negateCarry 1 ?bs = 1"
    by (rule negateCarry_01) simp
  have x: "0 < int x" using assms(1) by simp
  show z: "negateCarry 1 ?bs = 0"
  proof (rule ccontr)
    assume "negateCarry 1 ?bs \<noteq> 0"
    then have "negateCarry 1 ?bs = 1" using c by blast
    then have "int ?w = - int x" using eq by simp
    then show False using x by linarith
  qed
  have "int ?w = 256 ^ n - int x" using eq z by simp
  also have "\<dots> = int (256 ^ n - x)"
    using assms(2) by (simp add: of_nat_diff)
  finally have "?w = 256 ^ n - x" by (simp only: of_nat_eq_iff)
  then show "negateBytes 1 ?bs = bytesOfNat n (256 ^ n - x)"
    using bytesOfNat_valueOfBytes [of "negateBytes 1 ?bs"] by simp
qed

lemma less_16_cases:
  assumes "d < (16::nat)"
  shows "d \<in> {0, 1, 2, 3, 4, 5, 6, 7, 8, 9, 10, 11, 12, 13, 14, 15}"
proof -
  have "d \<in> set [0..<16]" using assms by simp
  also have "[0..<16] = [0, 1, 2, 3, 4, 5, 6, 7, 8, 9, 10, 11, 12, 13, 14, 15::nat]"
    by (simp add: upt_rec)
  finally show ?thesis by simp
qed

lemma scan_hex_digit:
  assumes "d < 16"
  shows "scanHexCharacterReverse (hex_digit d) description = Inr (int d)"
  using less_16_cases [OF assms]
  by (auto simp: hex_digit_def scanHexCharacterReverse_def)

lemma hex_digit_not_minus: "hex_digit d \<noteq> CHR ''-''"
proof -
  have "d mod 16 < 16" by simp
  from less_16_cases [OF this] show ?thesis
    by (auto simp: hex_digit_def)
qed

lemma push_bit_or:
  fixes h l :: int
  assumes "0 \<le> l" and "l < 16"
  shows "push_bit 4 h OR l = 16 * h + l"
proof -
  have "take_bit 4 l = l" using assms by (simp add: take_bit_int_eq_self)
  then have "push_bit 4 h OR l = concat_bit 4 l h"
    by (simp add: concat_bit_def or.commute)
  also have "\<dots> = take_bit 4 l + push_bit 4 h" by (rule concat_bit_eq)
  finally show ?thesis using \<open>take_bit 4 l = l\<close> by (simp add: push_bit_eq_mult)
qed

lemma scanHexByteReverse_byte:
  fixes b :: byte
  shows "scanHexByteReverse (hex_digit (unat b mod 16)) (hex_digit (unat b div 16) # rest) description
     = Inr (uint b, rest)"
proof -
  have lt: "unat b < 256" using unsigned_less [of b, where ?'a = nat] by simp
  then have h: "unat b div 16 < 16" by (simp add: less_mult_imp_div_less)
  have l: "unat b mod 16 < 16" by simp
  have "push_bit 4 (int (unat b div 16)) OR int (unat b mod 16)
          = 16 * int (unat b div 16) + int (unat b mod 16)"
    by (rule push_bit_or) (use l in simp_all)
  also have "\<dots> = int (16 * (unat b div 16) + unat b mod 16)"
    by (simp only: of_nat_add of_nat_mult of_nat_numeral)
  also have "\<dots> = int (unat b)" by (simp only: mult_div_mod_eq)
  also have "\<dots> = uint b" by (rule uint_nat [symmetric])
  finally show ?thesis
    by (simp add: scan_hex_digit [OF h] scan_hex_digit [OF l])
qed

declare scanHexByteReverse.simps [simp del]

lemma revDigits_Cons:
  "revDigits (b # bs) = hex_digit (unat b mod 16) # hex_digit (unat b div 16) # revDigits bs"
  by (simp add: revDigits_def)

lemma revDigits_Nil [simp]: "revDigits [] = []"
  by (simp add: revDigits_def)

lemma rev_hexText: "rev (concat (map fmt_02X (rev bs))) = revDigits bs"
  by (induction bs) (simp_all add: revDigits_Cons fmt_02X_digits)

lemma scanLoop_plain:
  assumes "bs \<noteq> []"
  shows "scanLoop False (length bs) c (hd (revDigits bs)) (tl (revDigits bs)) description
           = Inr (bs, c, [])"
  using assms
proof (induction bs)
  case Nil
  then show ?case by simp
next
  case (Cons b bs)
  show ?case
  proof (cases bs)
    case Nil
    then show ?thesis
      by (simp add: revDigits_Cons scanHexByteReverse_byte)
  next
    case (Cons b' bs')
    then have "bs \<noteq> []" by simp
    from Cons.IH [OF this] show ?thesis
      using Cons by (simp add: revDigits_Cons scanHexByteReverse_byte)
  qed
qed

lemma scanLoop_negative:
  assumes "bs \<noteq> []" and "c = 0 \<or> c = 1"
  shows "scanLoop True (length bs) c (hd (revDigits bs)) (tl (revDigits bs)) description
           = Inr (negateBytes c bs, negateCarry c bs, [])"
  using assms
proof (induction bs arbitrary: c)
  case Nil
  then show ?case by simp
next
  case (Cons b bs)
  let ?c' = "(if uint b = 0 \<and> c = 1 then 1 else 0) :: int"
  have c': "?c' = 0 \<or> ?c' = 1" by simp
  have d: "drop_bit 8 (((NOT (uint b)) AND 0xFF) + c) = ?c'"
    by (rule negate_step(2) [OF Cons.prems(2)])
  have chk: "?c' AND NOT 1 = 0" by simp
  show ?case
  proof (cases bs)
    case Nil
    then show ?thesis
      using chk by (simp add: revDigits_Cons scanHexByteReverse_byte d Let_def)
  next
    case (Cons b' bs')
    then have "bs \<noteq> []" by simp
    from Cons.IH [OF this c'] show ?thesis
      using Cons chk by (simp add: revDigits_Cons scanHexByteReverse_byte d Let_def)
  qed
qed

lemma c_div_8: "0 \<le> a \<Longrightarrow> c_div a 8 = a div 8"
  by (cases "a = 0") (simp_all add: c_div_def)

lemma byteCount_eq:
  "1 \<le> W \<Longrightarrow> W \<le> 2147483640 \<Longrightarrow> c_div (wrap32 (W + 7)) 8 = (W + 7) div 8"
  by (simp add: wrap32_id c_div_8)

lemma less_9_cases:
  assumes "1 \<le> q" and "q \<le> (8::nat)"
  shows "q \<in> {1, 2, 3, 4, 5, 6, 7, 8}"
proof -
  have "q \<in> set [1..<9]" using assms by simp
  also have "[1..<9] = [1, 2, 3, 4, 5, 6, 7, 8::nat]"
    by (simp add: upt_rec)
  finally show ?thesis by simp
qed

lemma signBitMask_eq:
  assumes "1 \<le> q" and "q \<le> 8" and "W mod 8 = int q mod 8"
  shows "signBitMask W = 2 ^ (q - 1)"
  using less_9_cases [OF assms(1,2)] assms(3)
  by (auto simp: signBitMask_def)

lemma highOrderByteMask_eq:
  assumes "1 \<le> q" and "q \<le> 8" and "V mod 8 = int q mod 8"
  shows "highOrderByteMask V = NOT (mask q)"
  using less_9_cases [OF assms(1,2)] assms(3)
  by (auto simp: highOrderByteMask_def mask_eq_exp_minus_1)

lemma bytesOfNat_top:
  assumes "0 < n"
  shows "bytesOfNat n x ! (n - 1) = of_nat (x div 256 ^ (n - 1))"
  using assms by (simp add: bytesOfNat_map del: upt_Suc)

lemma unat_top:
  assumes "0 < n" and "x < 256 ^ n"
  shows "unat (bytesOfNat n x ! (n - 1)) = x div 256 ^ (n - 1)"
proof -
  obtain k where n: "n = Suc k" using assms(1) by (cases n) simp_all
  have "x div 256 ^ k < 256" using assms(2) n by (simp add: less_mult_imp_div_less)
  moreover have "bytesOfNat n x ! (n - 1) = of_nat (x div 256 ^ (n - 1))"
    using assms(1) by (rule bytesOfNat_top)
  ultimately show ?thesis
    using n by (simp add: unat_of_nat del: bytesOfNat.simps)
qed

lemma width_geometry:
  assumes "1 \<le> W" and "n = nat ((W + 7) div 8)" and "q = nat W - 8 * (n - 1)"
  shows "0 < n" and "1 \<le> q" and "q \<le> 8" and "nat W = 8 * (n - 1) + q"
    and "W mod 8 = int q mod 8" and "(2::nat) ^ nat W = 2 ^ q * 256 ^ (n - 1)"
    and "(2::nat) ^ nat W \<le> 256 ^ n"
proof -
  show n: "0 < n" using assms(1,2) by simp
  have d: "int n = (W + 7) div 8" using assms(1,2) by simp
  have lo: "8 * int n \<le> W + 7" and hi: "W + 7 < 8 * int n + 8"
    unfolding d by presburger+
  have "8 * (n - 1) < nat W" using lo n assms(1) by linarith
  then show q1: "1 \<le> q" using assms(3) by simp
  show q8: "q \<le> 8" using hi n assms(1,3) by linarith
  show W: "nat W = 8 * (n - 1) + q" using q1 \<open>8 * (n - 1) < nat W\<close> assms(3) by simp
  have "W = 8 * int (n - 1) + int q" using W assms(1) by linarith
  then show "W mod 8 = int q mod 8" by simp
  have "(2::nat) ^ nat W = 2 ^ q * (2 ^ 8) ^ (n - 1)"
    unfolding W by (simp add: power_add power_mult)
  then show p: "(2::nat) ^ nat W = 2 ^ q * 256 ^ (n - 1)" by simp
  have "(2::nat) ^ q \<le> 2 ^ 8" using q8 by (intro power_increasing) simp_all
  then have "(2::nat) ^ q * 256 ^ (n - 1) \<le> 256 * 256 ^ (n - 1)"
    by (intro mult_le_mono1) simp
  also have "\<dots> = 256 ^ n" using n by (cases n) simp_all
  finally show "(2::nat) ^ nat W \<le> 256 ^ n" using p by simp
qed


lemma top_small:
  assumes "x < 2 ^ k * 256 ^ (n - 1)"
  shows "x div 256 ^ (n - 1) < (2::nat) ^ k"
  using assms by (rule less_mult_imp_div_less)

lemma top_large:
  assumes "(256 - 2 ^ k) * 256 ^ (n - 1) \<le> (x::nat)"
  shows "256 - 2 ^ k \<le> x div 256 ^ (n - 1)"
proof -
  have "(256 - 2 ^ k) * 256 ^ (n - 1) div 256 ^ (n - 1) \<le> x div 256 ^ (n - 1)"
    using assms by (rule div_le_mono)
  then show ?thesis by simp
qed

lemma sendBitsValue_unsigned:
  assumes "1 \<le> W" and "W \<le> 2147483640" and "n = nat ((W + 7) div 8)"
  shows "sendBitsValue (bytesOfNat n x) W False = hexDigits (2 * n) x"
proof -
  have "nat (c_div (wrap32 (W + 7)) 8) = n"
    using assms by (simp add: byteCount_eq)
  then show ?thesis
    by (simp add: sendBitsValue_def Let_def hexText_bytesOfNat)
qed

lemma sendBitsValue_signed_nonneg:
  assumes "1 \<le> W" and "W \<le> 2147483640" and "n = nat ((W + 7) div 8)"
    and "q = nat W - 8 * (n - 1)" and "x < 2 ^ (q - 1) * 256 ^ (n - 1)"
  shows "sendBitsValue (bytesOfNat n x) W True = hexDigits (2 * n) x"
proof -
  note g = width_geometry [OF assms(1,3,4)]
  let ?bs = "bytesOfNat n x"
  let ?t = "?bs ! (n - 1)"
  have bc: "c_div (wrap32 (W + 7)) 8 = int n"
    using assms(1,2,3) by (simp add: byteCount_eq)
  have "(2::nat) ^ (q - 1) \<le> 2 ^ 8" using g(3) by (intro power_increasing) simp_all
  then have "(2::nat) ^ (q - 1) * 256 ^ (n - 1) \<le> 256 * 256 ^ (n - 1)"
    by (intro mult_le_mono1) simp
  also have "\<dots> = 256 ^ n" using g(1) by (cases n) simp_all
  finally have x: "x < 256 ^ n" using assms(5) by simp
  have t: "unat ?t < 2 ^ (q - 1)"
    using unat_top [OF g(1) x] top_small [OF assms(5)] by simp
  have m: "signBitMask W = 2 ^ (q - 1)" using g(2,3,5) by (rule signBitMask_eq)
  have sign: "?t AND 2 ^ (q - 1) = 0" using t by (rule and_bit_small)
  have strip: "?t AND (2 ^ (q - 1) - 1) = ?t"
    using and_mask_small [OF t] by (simp add: mask_eq_exp_minus_1)
  have top: "nat (int n - 1) = n - 1" by simp
  show ?thesis
    unfolding sendBitsValue_def Let_def bc m top
    using sign strip by (simp add: hexText_bytesOfNat)
qed

lemma sendBitsValue_signed_negative:
  assumes "1 \<le> W" and "W \<le> 2147483640" and "n = nat ((W + 7) div 8)"
    and "q = nat W - 8 * (n - 1)" and "0 < y" and "y < 2 ^ (q - 1) * 256 ^ (n - 1)"
  shows "sendBitsValue (bytesOfNat n (256 ^ n - y)) W True = CHR ''-'' # hexDigits (2 * n) y"
proof -
  note g = width_geometry [OF assms(1,3,4)]
  let ?x = "256 ^ n - y"
  let ?bs = "bytesOfNat n ?x"
  let ?t = "?bs ! (n - 1)"
  let ?ms = "bytesOfNat n y"
  let ?u = "?ms ! (n - 1)"
  have bc: "c_div (wrap32 (W + 7)) 8 = int n"
    using assms(1,2,3) by (simp add: byteCount_eq)
  have p: "(256::nat) ^ n = 256 * 256 ^ (n - 1)" using g(1) by (cases n) simp_all
  have q7: "(2::nat) ^ (q - 1) \<le> 2 ^ 7" using g(3) by (intro power_increasing) simp_all
  then have "(2::nat) ^ (q - 1) * 256 ^ (n - 1) \<le> 128 * 256 ^ (n - 1)"
    by (intro mult_le_mono1) simp
  also have "\<dots> \<le> 256 * 256 ^ (n - 1)" by simp
  finally have "(2::nat) ^ (q - 1) * 256 ^ (n - 1) \<le> 256 ^ n" unfolding p .
  then have y: "y < 256 ^ n" using assms(6) by (rule less_le_trans [rotated])
  have x: "?x < 256 ^ n" "0 < ?x" using assms(5) y by simp_all
  have "(256 - 2 ^ (q - 1)) * 256 ^ (n - 1) = (256::nat) ^ n - 2 ^ (q - 1) * 256 ^ (n - 1)"
    by (simp add: p diff_mult_distrib)
  also have "\<dots> \<le> ?x" using assms(6) by simp
  finally have "256 - 2 ^ (q - 1) \<le> ?x div 256 ^ (n - 1)" by (rule top_large)
  then have t: "256 - 2 ^ (q - 1) \<le> unat ?t"
    using unat_top [OF g(1) x(1)] by simp
  have u: "unat ?u < 2 ^ (q - 1)"
    using unat_top [OF g(1) y] top_small [OF assms(6)] by simp
  have m: "signBitMask W = 2 ^ (q - 1)" using g(2,3,5) by (rule signBitMask_eq)
  have sign: "?t AND 2 ^ (q - 1) \<noteq> 0" using t by (rule and_bit_large) (use g(3) in simp)
  have strip: "?u AND (2 ^ (q - 1) - 1) = ?u"
    using and_mask_small [OF u] by (simp add: mask_eq_exp_minus_1)
  have neg: "negateBytes 1 ?bs = ?ms"
    using negateBytes_bytesOfNat(1) [OF x(2,1)] y by simp
  have top: "nat (int n - 1) = n - 1" by simp
  show ?thesis
    unfolding sendBitsValue_def Let_def bc m top
    using sign strip by (simp add: neg hexText_bytesOfNat)
qed

lemma hexDigits_not_minus: "c \<in> set (hexDigits w x) \<Longrightarrow> c \<noteq> CHR ''-''"
  by (induction w arbitrary: x) (auto simp: hex_digit_not_minus hex_digit_not_minus [symmetric])

lemma hexDigits_text:
  assumes "0 < n"
  shows "hexDigits (2 * n) x \<noteq> []" and "hd (hexDigits (2 * n) x) \<noteq> CHR ''-''"
    and "rev (hexDigits (2 * n) x) = revDigits (bytesOfNat n x)"
    and "last (hexDigits (2 * n) x) = hd (revDigits (bytesOfNat n x))"
proof -
  show ne: "hexDigits (2 * n) x \<noteq> []"
  proof
    assume "hexDigits (2 * n) x = []"
    then have "length (hexDigits (2 * n) x) = 0" by simp
    then have "2 * n = 0" by (simp only: length_hexDigits)
    then show False using assms by simp
  qed
  then have "hd (hexDigits (2 * n) x) \<in> set (hexDigits (2 * n) x)" by simp
  then show "hd (hexDigits (2 * n) x) \<noteq> CHR ''-''" by (rule hexDigits_not_minus)
  show r: "rev (hexDigits (2 * n) x) = revDigits (bytesOfNat n x)"
    by (simp only: rev_hexText flip: hexText_bytesOfNat)
  show "last (hexDigits (2 * n) x) = hd (revDigits (bytesOfNat n x))"
    using ne by (simp add: hd_rev flip: r)
qed

lemma scanHexBits_plain:
  assumes "1 \<le> W" and "W \<le> 2147483640" and "n = nat ((W + 7) div 8)"
    and "q = nat W - 8 * (n - 1)" and "x < 2 ^ q * 256 ^ (n - 1)"
  shows "scanHexBits (hexDigits (2 * n) x) W description = Inr (bytesOfNat n x)"
proof -
  note g = width_geometry [OF assms(1,3,4)]
  note t = hexDigits_text [OF g(1), of x]
  let ?bs = "bytesOfNat n x"
  have bc: "c_div (wrap32 (W + 7)) 8 = int n"
    using assms(1,2,3) by (simp add: byteCount_eq)
  have x: "x < 256 ^ n" using assms(5) g(6,7) by simp
  have top: "unat (?bs ! (n - 1)) < 2 ^ q"
    using unat_top [OF g(1) x] top_small [OF assms(5)] by simp
  have m: "highOrderByteMask W = NOT (mask q)" using g(2,3,5) by (rule highOrderByteMask_eq)
  have chk: "(?bs ! (n - 1)) AND NOT (mask q) = 0" using top by (rule and_not_mask_small)
  have "?bs \<noteq> []" using g(1) by (cases n) simp_all
  then have loop: "scanLoop False (length ?bs) 1 (hd (revDigits ?bs)) (tl (revDigits ?bs)) description
                = Inr (?bs, 1, [])"
    by (rule scanLoop_plain)
  show ?thesis
    unfolding scanHexBits_def Let_def bc
    using t(1,2) assms(1) loop chk
    by (simp add: t(3,4) m bc)
qed

lemma scanHexBits_negative:
  assumes "1 \<le> W" and "W \<le> 2147483640" and "n = nat ((W + 7) div 8)"
    and "q = nat W - 8 * (n - 1)" and "W mod 8 \<noteq> 1"
    and "0 < y" and "y < 2 ^ (q - 1) * 256 ^ (n - 1)"
  shows "scanHexBits (CHR ''-'' # hexDigits (2 * n) y) W description
           = Inr (bytesOfNat n (256 ^ n - y))"
proof -
  note g = width_geometry [OF assms(1,3,4)]
  note t = hexDigits_text [OF g(1), of y]
  let ?x = "256 ^ n - y"
  let ?bs = "bytesOfNat n ?x"
  let ?ms = "bytesOfNat n y"
  have W2: "2 \<le> W" using assms(1,5) by (cases "W = 1") simp_all
  have q2: "2 \<le> q"
  proof (rule ccontr)
    assume "\<not> 2 \<le> q"
    then have "q = 1" using g(2) by simp
    then show False using g(5) assms(5) by simp
  qed
  have bc: "c_div (wrap32 (W + 7)) 8 = int n"
    using assms(1,2,3) by (simp add: byteCount_eq)
  have "W = 8 * int (n - 1) + int q" using g(4) assms(1) by linarith
  moreover have "int (n - 1) = int n - 1" using g(1) by simp
  ultimately have "W - 1 + 7 = 8 * int n + (int q - 2)" by simp
  moreover have "(8 * int n + (int q - 2)) div 8 = int n + (int q - 2) div 8" by simp
  moreover have "(int q - 2) div 8 = 0" using q2 g(3) by simp
  ultimately have "(W - 1 + 7) div 8 = int n" by simp
  then have vbc: "c_div (wrap32 (W - 1 + 7)) 8 = int n"
    using assms(1,2) by (simp add: wrap32_id c_div_8)
  have p: "(256::nat) ^ n = 256 * 256 ^ (n - 1)" using g(1) by (cases n) simp_all
  have "(2::nat) ^ (q - 1) \<le> 2 ^ 7" using g(3) by (intro power_increasing) simp_all
  then have "(2::nat) ^ (q - 1) * 256 ^ (n - 1) \<le> 128 * 256 ^ (n - 1)"
    by (intro mult_le_mono1) simp
  also have "\<dots> \<le> 256 * 256 ^ (n - 1)" by simp
  finally have "(2::nat) ^ (q - 1) * 256 ^ (n - 1) \<le> 256 ^ n" unfolding p .
  then have y: "y < 256 ^ n" using assms(7) by (rule less_le_trans [rotated])
  have x: "?x < 256 ^ n" using assms(6) y by simp
  have "(256 - 2 ^ (q - 1)) * 256 ^ (n - 1) = (256::nat) ^ n - 2 ^ (q - 1) * 256 ^ (n - 1)"
    by (simp add: p diff_mult_distrib)
  also have "\<dots> \<le> ?x" using assms(7) by simp
  finally have "256 - 2 ^ (q - 1) \<le> ?x div 256 ^ (n - 1)" by (rule top_large)
  then have top: "256 - 2 ^ (q - 1) \<le> unat (?bs ! (n - 1))"
    using unat_top [OF g(1) x] by simp
  have "(W - 1) mod 8 = (int q - 1) mod 8"
    using g(5) by (rule mod_diff_cong) simp
  moreover have "int (q - 1) = int q - 1" using q2 by simp
  ultimately have "(W - 1) mod 8 = int (q - 1) mod 8" by simp
  then have m: "highOrderByteMask (W - 1) = NOT (mask (q - 1))"
    using q2 g(3) by (intro highOrderByteMask_eq) simp_all
  have chk: "(?bs ! (n - 1)) AND NOT (mask (q - 1)) = NOT (mask (q - 1))" using top by (rule and_not_mask_large)
  have ne: "?ms \<noteq> []" using g(1) by (cases n) simp_all
  have "scanLoop True (length ?ms) 1 (hd (revDigits ?ms)) (tl (revDigits ?ms)) description
          = Inr (negateBytes 1 ?ms, negateCarry 1 ?ms, [])"
    using ne by (rule scanLoop_negative) simp
  then have loop: "scanLoop True n 1 (hd (revDigits ?ms)) (tl (revDigits ?ms)) description
          = Inr (?bs, 0, [])"
    using negateBytes_bytesOfNat [OF assms(6) y] by simp
  show ?thesis
    unfolding scanHexBits_def Let_def
    using t(1) W2 loop chk bc vbc
    by (simp add: t(3,4) m)
qed

lemma revDigits_append: "revDigits (as @ bs) = revDigits as @ revDigits bs"
  by (simp add: revDigits_def)

lemma bytesOfNat_Suc_last:
  "bytesOfNat (Suc k) x = bytesOfNat k x @ [of_nat (x div 256 ^ k)]"
  by (simp add: bytesOfNat_map)

lemma scanLoop_negative_rest:
  assumes "rest \<noteq> []" and "c = 0 \<or> c = 1"
  shows "scanLoop True (length bs) c (hd (revDigits bs @ rest)) (tl (revDigits bs @ rest))
           description
           = Inr (negateBytes c bs, negateCarry c bs, rest)"
  using assms(2)
proof (induction bs arbitrary: c)
  case Nil
  then show ?case using assms(1) by simp
next
  case (Cons b bs)
  let ?c' = "(if uint b = 0 \<and> c = 1 then 1 else 0) :: int"
  have c': "?c' = 0 \<or> ?c' = 1" by simp
  have d: "drop_bit 8 (((NOT (uint b)) AND 0xFF) + c) = ?c'"
    by (rule negate_step(2) [OF Cons.prems])
  have chk: "?c' AND NOT 1 = 0" by simp
  obtain c1 rs1 where R: "revDigits bs @ rest = c1 # rs1"
    using assms(1) by (cases "revDigits bs @ rest") simp_all
  have "scanLoop True (length bs) ?c' c1 rs1 description
          = Inr (negateBytes ?c' bs, negateCarry ?c' bs, rest)"
    using Cons.IH [OF c'] unfolding R by simp
  then show ?case
    using chk by (simp add: revDigits_Cons scanHexByteReverse_byte d Let_def R)
qed

lemma scanHexBits_negative_rejected:
  assumes "2 \<le> W" and "W \<le> 2147483640" and "W mod 8 = 1"
  shows "scanHexBits (CHR ''-'' # hexDigits (2 * nat ((W + 7) div 8)) y) W description
           = Inl (Error (''Scanned value exceeded '' @ fmt_d ((W + 7) div 8)
                         @ '' bytes when '' @ description @ ''.''))"
proof -
  define n where "n = nat ((W + 7) div 8)"
  define q where "q = nat W - 8 * (n - 1)"
  have W1: "1 \<le> W" using assms(1) by simp
  note g = width_geometry [OF W1 n_def q_def]
  note t = hexDigits_text [OF g(1), of y]
  have bc: "c_div (wrap32 (W + 7)) 8 = (W + 7) div 8"
    using W1 assms(2) by (rule byteCount_eq)
  have nn: "int n = (W + 7) div 8" using W1 by (simp add: n_def)
  have "(W - 1 + 7) div 8 = (W + 7) div 8 - 1" using assms(3) by presburger
  then have vd: "(W - 1 + 7) div 8 = int n - 1" using nn by simp
  have vbc: "c_div (wrap32 (W - 1 + 7)) 8 = int n - 1"
    using assms(1,2) vd by (simp add: wrap32_id c_div_8)
  obtain k where k: "n = Suc k" using g(1) by (cases n) simp_all
  define lows where "lows = bytesOfNat k y"
  define top :: byte where "top = of_nat (y div 256 ^ k)"
  define rest where "rest = revDigits [top]"
  have split: "revDigits (bytesOfNat n y) = revDigits lows @ rest"
    unfolding k bytesOfNat_Suc_last revDigits_append lows_def top_def rest_def ..
  have rest: "rest \<noteq> []" "length rest = 2" by (simp_all add: rest_def revDigits_Cons)
  have "scanLoop True (length lows) 1 (hd (revDigits lows @ rest)) (tl (revDigits lows @ rest))
          description = Inr (negateBytes 1 lows, negateCarry 1 lows, rest)"
    using rest(1) by (rule scanLoop_negative_rest) simp
  then have loop: "scanLoop True k 1 (hd (revDigits (bytesOfNat n y)))
          (tl (revDigits (bytesOfNat n y))) description
          = Inr (negateBytes 1 lows, negateCarry 1 lows, rest)"
    unfolding split by (simp add: lows_def)
  have kk: "nat (int n - 1) = k" using k by simp
  have bcn: "c_div (wrap32 (W + 7)) 8 = int n" using bc nn by simp
  have "scanHexBits (CHR ''-'' # hexDigits (2 * n) y) W description
           = Inl (Error (''Scanned value exceeded '' @ fmt_d (int n)
                         @ '' bytes when '' @ description @ ''.''))"
    unfolding scanHexBits_def Let_def
    using t(1) assms(1) loop rest(2) bcn vbc
    by (simp add: t(3,4) kk)
  then show ?thesis
    unfolding nn unfolding n_def .
qed


lemma nat_less_power: "v < 2 ^ k \<Longrightarrow> nat v < 2 ^ k"
  by (simp add: nat_less_iff)

lemma valueBuffer_nonneg:
  assumes "1 \<le> W" and "n = nat ((W + 7) div 8)" and "0 \<le> v" and "v < 2 ^ nat W"
  shows "valueBuffer W v = bytesOfNat n (nat v)"
proof -
  have "q = nat W - 8 * (n - 1) \<Longrightarrow> (2::nat) ^ nat W \<le> 256 ^ n" for q
    using width_geometry(7) [OF assms(1,2)] by simp
  then have "(2::nat) ^ nat W \<le> 256 ^ n" by simp
  then have "int (2 ^ nat W) \<le> int (256 ^ n)" by (simp only: of_nat_le_iff)
  then have "v < 256 ^ n" using assms(4) by simp
  then have "v mod 256 ^ n = v" using assms(3) by simp
  moreover have "valueBuffer W v = bytesOfNat n (nat (v mod 256 ^ n))"
    by (simp add: valueBuffer_def Let_def assms(2))
  ultimately show ?thesis by (simp only:)
qed

lemma valueBuffer_negative:
  assumes "1 \<le> W" and "n = nat ((W + 7) div 8)" and "v < 0" and "- (2 ^ nat W) \<le> v"
  shows "valueBuffer W v = bytesOfNat n (256 ^ n - nat (- v))"
proof -
  have "q = nat W - 8 * (n - 1) \<Longrightarrow> (2::nat) ^ nat W \<le> 256 ^ n" for q
    using width_geometry(7) [OF assms(1,2)] by simp
  then have "(2::nat) ^ nat W \<le> 256 ^ n" by simp
  then have "int (2 ^ nat W) \<le> int (256 ^ n)" by (simp only: of_nat_le_iff)
  then have lo: "- (256 ^ n) \<le> v" using assms(4) by simp
  have "v mod 256 ^ n = (v + 256 ^ n) mod 256 ^ n" by simp
  also have "\<dots> = v + 256 ^ n" using lo assms(3) by (intro mod_pos_pos_trivial) simp_all
  finally have m: "v mod 256 ^ n = v + 256 ^ n" .
  define y where "y = nat (- v)"
  have y: "int y = - v" using assms(3) by (simp add: y_def)
  have "int y \<le> int (256 ^ n)" using lo y by simp
  then have "y \<le> 256 ^ n" by (simp only: of_nat_le_iff)
  then have "int (256 ^ n - y) = int (256 ^ n) - int y" by (rule of_nat_diff)
  also have "\<dots> = v + 256 ^ n" using y by simp
  finally have "nat (v + 256 ^ n) = 256 ^ n - y" by (simp only: nat_int flip: m)
  moreover have "valueBuffer W v = bytesOfNat n (nat (v mod 256 ^ n))"
    by (simp add: valueBuffer_def Let_def assms(2))
  ultimately show ?thesis by (simp only: m y_def)
qed


lemma power_split:
  assumes "1 \<le> W" and "n = nat ((W + 7) div 8)" and "q = nat W - 8 * (n - 1)"
  shows "(2::nat) ^ nat (W - 1) = 2 ^ (q - 1) * 256 ^ (n - 1)"
proof -
  note g = width_geometry [OF assms]
  have "nat (W - 1) = 8 * (n - 1) + (q - 1)" using g(4) g(2) assms(1) by linarith
  then have "(2::nat) ^ nat (W - 1) = 2 ^ (q - 1) * (2 ^ 8) ^ (n - 1)"
    by (simp add: power_add power_mult)
  then show ?thesis by simp
qed

lemma sendBits_valueBuffer:
  assumes "1 \<le> W" and "W \<le> 2147483640" and "inRange W isSigned v"
    and "v \<noteq> - (2 ^ nat (W - 1))"
  shows "sendBits (valueBuffer W v) W isSigned
           = Inr (fmt_08X W @ '' '' @ (if v < 0 then ''-'' else [])
                  @ fmt_0X (2 * nat ((W + 7) div 8)) (nat \<bar>v\<bar>))"
proof -
  define n where "n = nat ((W + 7) div 8)"
  define q where "q = nat W - 8 * (n - 1)"
  note g = width_geometry [OF assms(1) n_def q_def]
  note ps = power_split [OF assms(1) n_def q_def]
  have head: "sendBits bs W isSigned = Inr (fmt_08X W @ '' '' @ sendBitsValue bs W isSigned)" for bs
    using assms(1,3) by (auto simp: sendBits_def inRange_def)
  have fmt: "fmt_0X (2 * n) y = hexDigits (2 * n) y" if "y < 2 ^ nat W" for y
  proof -
    have "y < 256 ^ n" using that g(7) by simp
    also have "(256::nat) ^ n = 16 ^ (2 * n)" by (simp add: power_mult)
    finally show ?thesis using g(1) by (intro fmt_0X_hexDigits) simp_all
  qed
  have half: "(2::nat) ^ nat (W - 1) \<le> 2 ^ nat W" by (intro power_increasing) simp_all
  have halfi: "(2::int) ^ nat (W - 1) \<le> 2 ^ nat W" by (intro power_increasing) simp_all
  show ?thesis
  proof (cases isSigned)
    case False
    then have v: "0 \<le> v" "v < 2 ^ nat W" using assms(3) by (simp_all add: inRange_def)
    have "sendBitsValue (valueBuffer W v) W False = hexDigits (2 * n) (nat v)"
      using valueBuffer_nonneg [OF assms(1) n_def v] sendBitsValue_unsigned [OF assms(1,2) n_def]
      by simp
    moreover have "fmt_0X (2 * n) (nat v) = hexDigits (2 * n) (nat v)"
      using v by (intro fmt nat_less_power)
    ultimately show ?thesis
      using False v head by (simp add: n_def)
  next
    case True
    then have r: "- (2 ^ nat (W - 1)) \<le> v" "v < 2 ^ nat (W - 1)"
      using assms(3) by (simp_all add: inRange_def)
    show ?thesis
    proof (cases "v < 0")
      case False
      then have v: "0 \<le> v" by simp
      have lt: "nat v < 2 ^ nat (W - 1)" using r(2) by (rule nat_less_power)
      then have "nat v < 2 ^ nat W" using half by (rule less_le_trans)
      have "v < 2 ^ nat W" using r(2) halfi by (rule less_le_trans)
      have "sendBitsValue (valueBuffer W v) W True = hexDigits (2 * n) (nat v)"
        using valueBuffer_nonneg [OF assms(1) n_def v \<open>v < 2 ^ nat W\<close>]
          sendBitsValue_signed_nonneg [OF assms(1,2) n_def q_def, of "nat v"] lt
        by (simp add: ps)
      moreover have "fmt_0X (2 * n) (nat v) = hexDigits (2 * n) (nat v)"
        using \<open>nat v < 2 ^ nat W\<close> by (rule fmt)
      ultimately show ?thesis
        using True False v head by (simp add: n_def)
    next
      case neg: True
      define y where "y = nat (- v)"
      have y: "0 < y" "int y = - v" using neg by (simp_all add: y_def)
      have "- v < 2 ^ nat (W - 1)" using r(1) assms(4) by simp
      then have lt: "y < 2 ^ nat (W - 1)" unfolding y_def by (rule nat_less_power)
      then have yW: "y < 2 ^ nat W" using half by (rule less_le_trans)
      have "- (2 ^ nat W) \<le> - ((2::int) ^ nat (W - 1))"
        using halfi by (simp only: neg_le_iff_le)
      then have "- (2 ^ nat W) \<le> v"
        using r(1) by (rule order_trans)
      with assms(1) n_def neg have vb: "valueBuffer W v = bytesOfNat n (256 ^ n - y)"
        unfolding y_def by (rule valueBuffer_negative)
      have "sendBitsValue (valueBuffer W v) W True = CHR ''-'' # hexDigits (2 * n) y"
        unfolding vb using assms(1,2) n_def q_def y(1) lt [unfolded ps]
        by (rule sendBitsValue_signed_negative)
      moreover have "fmt_0X (2 * n) y = hexDigits (2 * n) y"
        using yW by (rule fmt)
      moreover have "nat \<bar>v\<bar> = y" using neg by (simp add: y_def)
      ultimately show ?thesis
        using True neg head by (simp add: n_def)
    qed
  qed
qed

lemma bufferValue_valueBuffer:
  assumes "1 \<le> W" and "inRange W isSigned v"
  shows "bufferValue W isSigned (valueBuffer W v) = v"
proof -
  define n where "n = nat ((W + 7) div 8)"
  define q where "q = nat W - 8 * (n - 1)"
  note g = width_geometry [OF assms(1) n_def q_def]
  have "nat (v mod 256 ^ n) < 256 ^ n"
    by (simp add: nat_less_iff)
  then have "valueOfBytes (bytesOfNat n (nat (v mod 256 ^ n))) = nat (v mod 256 ^ n)"
    by (rule valueOfBytes_bytesOfNat)
  then have val: "int (valueOfBytes (valueBuffer W v)) = v mod 256 ^ n"
    by (simp add: valueBuffer_def Let_def n_def)
  have "nat W \<le> 8 * n" using g(4) g(3) g(1) by linarith
  then have "(2::int) ^ nat W dvd 2 ^ (8 * n)" by (rule le_imp_power_dvd)
  then have "(2::int) ^ nat W dvd 256 ^ n" by (simp add: power_mult)
  then have m: "v mod 256 ^ n mod 2 ^ nat W = v mod 2 ^ nat W" by (rule mod_mod_cancel)
  define P :: int where "P = 2 ^ nat (W - 1)"
  have W: "nat W = Suc (nat (W - 1))" using assms(1) by simp
  have PW: "(2::int) ^ nat W = 2 * P" unfolding P_def by (subst W) simp
  have Ppos: "0 < P" by (simp add: P_def)
  have rng: "if isSigned then - P \<le> v \<and> v < P else 0 \<le> v \<and> v < 2 * P"
  proof (cases isSigned)
    case True
    then have "- (2 ^ nat (W - 1)) \<le> v \<and> v < 2 ^ nat (W - 1)"
      using assms(2) by (simp add: inRange_def)
    then show ?thesis using True unfolding P_def by simp
  next
    case False
    then have "0 \<le> v \<and> v < 2 ^ nat W"
      using assms(2) by (simp add: inRange_def)
    then show ?thesis using False unfolding PW by simp
  qed
  have m': "v mod 256 ^ n mod (2 * P) = v mod (2 * P)" using m unfolding PW .
  have bv: "bufferValue W isSigned (valueBuffer W v)
              = (if isSigned \<and> P \<le> v mod (2 * P) then v mod (2 * P) - 2 * P else v mod (2 * P))"
    unfolding bufferValue_def Let_def val PW P_def [symmetric] m' ..
  show ?thesis
  proof (cases "v < 0")
    case False
    then have v: "0 \<le> v" by simp
    have lt: "v < 2 * P" using rng Ppos by (simp split: if_splits)
    have "v mod (2 * P) = v" using v lt by (rule mod_pos_pos_trivial)
    then show ?thesis
      unfolding bv using rng by (simp split: if_splits)
  next
    case True
    then have sg: isSigned and lo: "- P \<le> v"
      using rng by (simp_all split: if_splits)
    have "v mod (2 * P) = (v + 2 * P) mod (2 * P)" by simp
    also have "\<dots> = v + 2 * P"
      using True lo Ppos by (intro mod_pos_pos_trivial) linarith+
    finally have "v mod (2 * P) = v + 2 * P" .
    then show ?thesis
      unfolding bv using sg lo by simp
  qed
qed

text \<open>
  Claim C4, as stated, fails: the encoder suppresses no leading zero. Every byte of the
  buffer is written with \<open>%02X\<close>, so the value 0 of a port of 8 bits is sent as \<open>00\<close>,
  not as \<open>0\<close>.
\<close>

theorem zero_is_two_digits_counterexample:
  "sendBits [0x00] 8 False = Inr ''00000008 00''"
  by code_simp

text \<open>
  Claim C4, amended. For a width \<open>W\<close> (\<open>W + 7\<close> still an \<open>int\<close>) and a value \<open>v\<close> in
  range, the most negative signed value apart, the encoder sends the width, then \<open>-\<close> when
  \<open>v\<close> is negative, then the absolute magnitude in upper-case hexadecimal padded with
  zeros to exactly two digits for each of the \<open>(W + 7) div 8\<close> bytes: no leading zero is
  suppressed. For \<open>v = 0\<close> these digits are all \<open>0\<close>, and there is no \<open>-\<close>.
\<close>

theorem encode_digits:
  assumes "1 \<le> W" and "W \<le> 2147483640" and "inRange W isSigned v"
    and "v \<noteq> - (2 ^ nat (W - 1))"
  shows "sendBits (valueBuffer W v) W isSigned
           = Inr (fmt_08X W @ '' '' @ (if v < 0 then ''-'' else [])
                  @ fmt_0X (2 * nat ((W + 7) div 8)) (nat \<bar>v\<bar>))
         \<and> length (fmt_0X (2 * nat ((W + 7) div 8)) (nat \<bar>v\<bar>)) = 2 * nat ((W + 7) div 8)
         \<and> fmt_0X (2 * nat ((W + 7) div 8)) 0 = replicate (2 * nat ((W + 7) div 8)) CHR ''0''"
proof -
  define n where "n = nat ((W + 7) div 8)"
  define q where "q = nat W - 8 * (n - 1)"
  note g = width_geometry [OF assms(1) n_def q_def]
  have fmt: "fmt_0X (2 * n) y = hexDigits (2 * n) y" if "y < 2 ^ nat W" for y
  proof -
    have "y < 256 ^ n" using that g(7) by simp
    also have "(256::nat) ^ n = 16 ^ (2 * n)" by (simp add: power_mult)
    finally show ?thesis using g(1) by (intro fmt_0X_hexDigits) simp_all
  qed
  have halfi: "(2::int) ^ nat (W - 1) \<le> 2 ^ nat W" by (intro power_increasing) simp_all
  have "\<bar>v\<bar> < 2 ^ nat W"
  proof (cases isSigned)
    case True
    have r: "- (2 ^ nat (W - 1)) \<le> v" "v < 2 ^ nat (W - 1)"
      using assms(3) True by (simp_all add: inRange_def)
    then have "- (2 ^ nat (W - 1)) < v" using assms(4) by simp
    then have "\<bar>v\<bar> < 2 ^ nat (W - 1)" using r(2) by (simp add: abs_less_iff)
    then show ?thesis using halfi by (rule less_le_trans)
  next
    case False
    have "0 \<le> v" "v < 2 ^ nat W"
      using assms(3) False by (simp_all add: inRange_def)
    then show ?thesis by simp
  qed
  then have "nat \<bar>v\<bar> < 2 ^ nat W" by (rule nat_less_power)
  then have "length (fmt_0X (2 * n) (nat \<bar>v\<bar>)) = 2 * n"
    by (simp add: fmt)
  moreover have "fmt_0X (2 * n) 0 = replicate (2 * n) CHR ''0''"
    by (simp add: fmt hexDigits_zero)
  ultimately show ?thesis
    using sendBits_valueBuffer [OF assms] by (simp add: n_def)
qed

theorem encode_digits_witness:
  "sendBits (valueBuffer 8 (- 16)) 8 True = Inr ''00000008 -10''
   \<and> length (fmt_0X 2 16) = 2 \<and> fmt_0X 2 0 = ''00''"
  using encode_digits [of 8 True "- 16"]
  by (simp add: inRange_def fmt_08X_def fmt_0X_def hex_of_nat_small hex_of_nat_large
                hex_digit_def replicate_numeral)

text \<open>
  Claim C1, as stated, fails for the negative values of a signed port whose width is
  \<open>8k + 1\<close>: the encoder writes two digits for each of the \<open>k + 1\<close> bytes of the buffer,
  and the decoder takes at most \<open>k\<close> bytes of digits after a \<open>-\<close> (the magnitude has
  \<open>8k\<close> bits). The value \<open>-1\<close> of a port of 9 bits is sent as \<open>-0001\<close>, which the
  decoder rejects.
\<close>

theorem negative_nine_bits_counterexample:
  "sendBits [0xFF, 0xFF] 9 True = Inr ''00000009 -0001''
   \<and> scanHexBits ''-0001'' 9 ''parsing''
       = Inl (Error ''Scanned value exceeded 2 bytes when parsing.'')"
  by code_simp

text \<open>
  Claim C1, amended. For a width \<open>W\<close> (\<open>W + 7\<close> still an \<open>int\<close>) and a value \<open>v\<close> in
  range, the most negative signed value apart, the encoder sends the width and a text for
  the buffer of \<open>v\<close>, whose value is \<open>v\<close>. Decoded at the width \<open>W\<close>, that text gives
  the same buffer again, unless \<open>v\<close> is negative and \<open>W mod 8 = 1\<close>: then the decoder
  rejects the text, as a value that exceeds the \<open>(W + 7) div 8\<close> bytes.
\<close>

theorem decode_encode_roundtrip:
  assumes "1 \<le> W" and "W \<le> 2147483640" and "inRange W isSigned v"
    and "v \<noteq> - (2 ^ nat (W - 1))"
  shows "\<exists>text. sendBits (valueBuffer W v) W isSigned = Inr (fmt_08X W @ '' '' @ text)
           \<and> bufferValue W isSigned (valueBuffer W v) = v
           \<and> scanHexBits text W description
               = (if v < 0 \<and> W mod 8 = 1
                  then Inl (Error (''Scanned value exceeded '' @ fmt_d ((W + 7) div 8)
                                   @ '' bytes when '' @ description @ ''.''))
                  else Inr (valueBuffer W v))"
proof -
  define n where "n = nat ((W + 7) div 8)"
  define q where "q = nat W - 8 * (n - 1)"
  note g = width_geometry [OF assms(1) n_def q_def]
  note ps = power_split [OF assms(1) n_def q_def]
  have halfi: "(2::int) ^ nat (W - 1) \<le> 2 ^ nat W" by (intro power_increasing) simp_all
  have half: "(2::nat) ^ nat (W - 1) \<le> 2 ^ nat W" by (intro power_increasing) simp_all
  have a: "- (2 ^ nat W) \<le> - ((2::int) ^ nat (W - 1))"
    using halfi by (simp only: neg_le_iff_le)
  have b: "v < 2 ^ nat W" if "v < 2 ^ nat (W - 1)"
    using that halfi by (rule less_le_trans)
  have c: "- (2 ^ nat W) \<le> v" if "0 \<le> v"
    using that by (rule order_trans [rotated]) simp
  have range: "- (2 ^ nat W) \<le> v \<and> v < 2 ^ nat W"
  proof (cases isSigned)
    case True
    have "- (2 ^ nat (W - 1)) \<le> v" "v < 2 ^ nat (W - 1)"
      using assms(3) True by (simp_all add: inRange_def)
    then show ?thesis using a b by (meson order_trans)
  next
    case False
    have "0 \<le> v" "v < 2 ^ nat W"
      using assms(3) False by (simp_all add: inRange_def)
    then show ?thesis using c by blast
  qed
  have fmt: "fmt_0X (2 * n) y = hexDigits (2 * n) y" if "y < 2 ^ nat W" for y
  proof -
    have "y < 256 ^ n" using that g(7) by simp
    also have "(256::nat) ^ n = 16 ^ (2 * n)" by (simp add: power_mult)
    finally show ?thesis using g(1) by (intro fmt_0X_hexDigits) simp_all
  qed
  let ?text = "(if v < 0 then ''-'' else []) @ fmt_0X (2 * n) (nat \<bar>v\<bar>)"
  let ?rejected = "Inl (Error (''Scanned value exceeded '' @ fmt_d ((W + 7) div 8)
                               @ '' bytes when '' @ description @ ''.'')) :: error + byte list"
  have enc: "sendBits (valueBuffer W v) W isSigned = Inr (fmt_08X W @ '' '' @ ?text)"
    using sendBits_valueBuffer [OF assms(1-4)] by (simp add: n_def)
  have dec: "scanHexBits ?text W description
               = (if v < 0 \<and> W mod 8 = 1 then ?rejected else Inr (valueBuffer W v))"
  proof (cases "v < 0")
    case False
    then have v: "0 \<le> v" by simp
    have lt: "nat v < 2 ^ q * 256 ^ (n - 1)"
      using nat_less_power [OF range [THEN conjunct2]] g(6) by simp
    have "scanHexBits (hexDigits (2 * n) (nat v)) W description = Inr (bytesOfNat n (nat v))"
      using assms(1,2) n_def q_def lt by (rule scanHexBits_plain)
    moreover have "fmt_0X (2 * n) (nat v) = hexDigits (2 * n) (nat v)"
      using nat_less_power [OF range [THEN conjunct2]] by (rule fmt)
    ultimately show ?thesis
      using False v valueBuffer_nonneg [OF assms(1) n_def v range [THEN conjunct2]] by simp
  next
    case True
    then have sg: isSigned and lo: "- (2 ^ nat (W - 1)) \<le> v" and W2: "2 \<le> W"
      using assms(3) by (auto simp: inRange_def split: if_splits)
    define y where "y = nat (- v)"
    have y: "0 < y" using True by (simp add: y_def)
    have "- v < 2 ^ nat (W - 1)" using lo assms(4) by simp
    then have lt: "y < 2 ^ nat (W - 1)" unfolding y_def by (rule nat_less_power)
    then have yW: "y < 2 ^ nat W" using half by (rule less_le_trans)
    have f: "fmt_0X (2 * n) y = hexDigits (2 * n) y" using yW by (rule fmt)
    have ay: "nat \<bar>v\<bar> = y" using True by (simp add: y_def)
    show ?thesis
    proof (cases "W mod 8 = 1")
      case m8: False
      have "scanHexBits (CHR ''-'' # hexDigits (2 * n) y) W description
              = Inr (bytesOfNat n (256 ^ n - y))"
        using assms(1,2) n_def q_def m8 y lt [unfolded ps] by (rule scanHexBits_negative)
      moreover have "valueBuffer W v = bytesOfNat n (256 ^ n - y)"
        unfolding y_def using assms(1) n_def True range [THEN conjunct1]
        by (rule valueBuffer_negative)
      ultimately show ?thesis using True m8 f ay by simp
    next
      case m8: True
      have "scanHexBits (CHR ''-'' # hexDigits (2 * n) y) W description = ?rejected"
        unfolding n_def using W2 assms(2) m8 by (rule scanHexBits_negative_rejected)
      then show ?thesis using True m8 f ay by simp
    qed
  qed
  show ?thesis
    using enc dec bufferValue_valueBuffer [OF assms(1,3)] by blast
qed

text \<open>The value \<open>-5\<close> of a signed port of 12 bits makes the round trip; the value \<open>-1\<close>
  of a signed port of 9 bits is rejected.\<close>

theorem decode_encode_roundtrip_witness:
  "(\<exists>text. sendBits (valueBuffer 12 (- 5)) 12 True = Inr (fmt_08X 12 @ '' '' @ text)
           \<and> bufferValue 12 True (valueBuffer 12 (- 5)) = - 5
           \<and> scanHexBits text 12 ''parsing'' = Inr (valueBuffer 12 (- 5)))
   \<and> (\<exists>text. sendBits (valueBuffer 9 (- 1)) 9 True = Inr (fmt_08X 9 @ '' '' @ text)
           \<and> bufferValue 9 True (valueBuffer 9 (- 1)) = - 1
           \<and> scanHexBits text 9 ''parsing''
               = Inl (Error (''Scanned value exceeded '' @ fmt_d 2 @ '' bytes when parsing.'')))"
  using decode_encode_roundtrip [of 12 True "- 5" "''parsing''"]
    decode_encode_roundtrip [of 9 True "- 1" "''parsing''"]
  by (simp add: inRange_def)

end
